theory Spec2Isabelle
  imports Main
begin

section \<open>Strings and errors\<close>

text \<open>
  JavaScript strings are modelled as \<open>string\<close>, one \<open>char\<close> per code unit, restricted
  to the code units \<open>0..255\<close>. A thrown exception is a value of type \<open>error\<close>:
  \<open>Error msg\<close> is \<open>new Error(msg)\<close> and \<open>TypeError msg\<close> is the exception of the
  platform's URL constructor. \<open>Unmodelled\<close> marks an input of a platform function that
  lies outside the part of the platform written out here.
\<close>

datatype error = Error string | TypeError string | Unmodelled

definition is_upper_ascii :: "char \<Rightarrow> bool" where
  "is_upper_ascii c = (65 \<le> (of_char c :: nat) \<and> (of_char c :: nat) \<le> 90)"

definition is_lower_ascii :: "char \<Rightarrow> bool" where
  "is_lower_ascii c = (97 \<le> (of_char c :: nat) \<and> (of_char c :: nat) \<le> 122)"

definition is_digit :: "char \<Rightarrow> bool" where
  "is_digit c = (48 \<le> (of_char c :: nat) \<and> (of_char c :: nat) \<le> 57)"

text \<open>
  \<open>String.prototype.toLocaleLowerCase\<close> on the code units \<open>0..255\<close>: the letters
  \<open>A-Z\<close> and the Latin-1 capitals \<open>0xC0-0xDE\<close> (without the multiplication sign
  \<open>0xD7\<close>) move up by 32. The locale tailorings (Turkish, Azeri, Lithuanian) concern
  the letters I and J and accented letters only.
\<close>

definition toLocaleLowerCase_char :: "char \<Rightarrow> char" where
  "toLocaleLowerCase_char c =
     (let n = (of_char c :: nat)
      in if (65 \<le> n \<and> n \<le> 90) \<or> (192 \<le> n \<and> n \<le> 222 \<and> n \<noteq> 215)
         then char_of (n + 32) else c)"

definition toLocaleLowerCase :: "string \<Rightarrow> string" where
  "toLocaleLowerCase s = map toLocaleLowerCase_char s"

text \<open>
  Number-to-string conversion of a template literal, for a number that is a non-negative
  integer below \<open>10^21\<close>: JavaScript prints its decimal digits without leading zeros.
  Every safe integer lies in that range, and the token list schema admits no other chain
  ID. From \<open>10^21\<close> on JavaScript prints an exponent (\<open>1e+21\<close>); the function below
  is not meant for such numbers, and no statement about the format of keys is made for
  them.
\<close>

definition digit_char :: "nat \<Rightarrow> char" where
  "digit_char d = char_of (48 + d)"

fun String_of_number :: "nat \<Rightarrow> string" where
  "String_of_number n =
     (if n < 10 then [digit_char n]
      else String_of_number (n div 10) @ [digit_char (n mod 10)])"

text \<open>
  \<open>Number(s)\<close> for a string of decimal digits, the only strings the token list
  schema lets through as keys of \<open>bridgeInfo\<close> (a decimal string that converts to a
  safe integer of at least 1).
\<close>

definition digit_val :: "char \<Rightarrow> nat" where
  "digit_val c = of_char c - 48"

definition Number_of_string :: "string \<Rightarrow> nat" where
  "Number_of_string s = foldl (\<lambda>acc c. 10 * acc + digit_val c) 0 s"

section \<open>Chain addresses and their keys (chain-address.ts)\<close>

text \<open>
  An \<open>Address\<close> is a string (the TypeScript type only asks for the prefix \<open>0x\<close>);
  the chain ID is a number, here a natural number.
\<close>

type_synonym Address = string

record ChainAddress =
  chainId :: nat
  address :: Address

type_synonym ChainAddressKey = string

text \<open>\<open>String.prototype.slice(2)\<close>: the string without its first two code units.\<close>

definition slice2 :: "string \<Rightarrow> string" where
  "slice2 s = drop 2 s"

definition getChainAddressKey :: "'a ChainAddress_scheme \<Rightarrow> ChainAddressKey" where
  "getChainAddressKey chainAddress =
     String_of_number (chainId chainAddress) @ ''_'' @ slice2 (address chainAddress)"

subsection \<open>The address predicate and its cache\<close>

text \<open>The regular expression \<open>/^0x[a-f0-9]{40}$/\<close>, tested against a whole string.\<close>

definition is_lower_hex :: "char \<Rightarrow> bool" where
  "is_lower_hex c =
     ((97 \<le> (of_char c :: nat) \<and> (of_char c :: nat) \<le> 102) \<or> is_digit c)"

definition addressRegex_test :: "string \<Rightarrow> bool" where
  "addressRegex_test s =
     (take 2 s = ''0x'' \<and> length (drop 2 s) = 40 \<and> list_all is_lower_hex (drop 2 s))"

text \<open>
  The library class \<open>LruCache\<close>: a JavaScript \<open>Map\<close> (entries in insertion order,
  oldest first) with a capacity. \<open>get\<close> moves a found key to the most recent place;
  \<open>set\<close> does the same with the new value and then drops the oldest entry when the
  size exceeds the capacity.
\<close>

record ('k, 'v) LruCache =
  maxSize :: nat
  entries :: "('k \<times> 'v) list"

definition new_LruCache :: "nat \<Rightarrow> ('k, 'v) LruCache" where
  "new_LruCache n = \<lparr>maxSize = n, entries = []\<rparr>"

definition setMostRecentlyUsed :: "'k \<Rightarrow> 'v \<Rightarrow> ('k, 'v) LruCache \<Rightarrow> ('k, 'v) LruCache" where
  "setMostRecentlyUsed k v c =
     c\<lparr>entries := filter (\<lambda>e. fst e \<noteq> k) (entries c) @ [(k, v)]\<rparr>"

definition pruneToMaxSize :: "('k, 'v) LruCache \<Rightarrow> ('k, 'v) LruCache" where
  "pruneToMaxSize c =
     (if length (entries c) > maxSize c then c\<lparr>entries := tl (entries c)\<rparr> else c)"

definition LruCache_get :: "'k \<Rightarrow> ('k, 'v) LruCache \<Rightarrow> 'v option \<times> ('k, 'v) LruCache" where
  "LruCache_get k c =
     (case map_of (entries c) k of
        None \<Rightarrow> (None, c)
      | Some v \<Rightarrow> (Some v, setMostRecentlyUsed k v c))"

definition LruCache_set :: "'k \<Rightarrow> 'v \<Rightarrow> ('k, 'v) LruCache \<Rightarrow> ('k, 'v) LruCache" where
  "LruCache_set k v c = pruneToMaxSize (setMostRecentlyUsed k v c)"

definition isAddressCache :: "(string, bool) LruCache" where
  "isAddressCache = new_LruCache 8192"

text \<open>
  \<open>isAddress\<close> reads and writes the module's cache, so the cache is passed in and
  returned.
\<close>

definition isAddress :: "string \<Rightarrow> (string, bool) LruCache \<Rightarrow> bool \<times> (string, bool) LruCache" where
  "isAddress address0 cache =
     (let address1 = toLocaleLowerCase address0;
          (cached, cache1) = LruCache_get address1 cache
      in case cached of
           Some result \<Rightarrow> (result, cache1)
         | None \<Rightarrow>
             (let result = addressRegex_test address1
              in (result, LruCache_set address1 result cache1)))"

text \<open>The cache after a sequence of earlier calls of \<open>isAddress\<close>, oldest call first.\<close>

definition isAddress_calls :: "string list \<Rightarrow> (string, bool) LruCache \<Rightarrow> (string, bool) LruCache" where
  "isAddress_calls inputs cache = foldl (\<lambda>c a. snd (isAddress a c)) cache inputs"

text \<open>
  The specification's words for a well-formed address: the prefix \<open>0x\<close>, in either
  case, followed by exactly 40 hexadecimal digits, in either case.
\<close>

definition is_hex_digit :: "char \<Rightarrow> bool" where
  "is_hex_digit c =
     (is_digit c \<or> (97 \<le> (of_char c :: nat) \<and> (of_char c :: nat) \<le> 102)
        \<or> (65 \<le> (of_char c :: nat) \<and> (of_char c :: nat) \<le> 70))"

definition address_syntax :: "string \<Rightarrow> bool" where
  "address_syntax s =
     (case s of
        c0 # c1 # digits \<Rightarrow>
          c0 = CHR ''0'' \<and> (c1 = CHR ''x'' \<or> c1 = CHR ''X'')
          \<and> length digits = 40 \<and> list_all is_hex_digit digits
      | _ \<Rightarrow> False)"

text \<open>The specification's "address with its hex letters uppercased".\<close>

definition upper_hex_char :: "char \<Rightarrow> char" where
  "upper_hex_char c =
     (if 97 \<le> (of_char c :: nat) \<and> (of_char c :: nat) \<le> 102
      then char_of ((of_char c :: nat) - 32) else c)"

definition upper_hex_digits :: "Address \<Rightarrow> Address" where
  "upper_hex_digits a = take 2 a @ map upper_hex_char (drop 2 a)"

section \<open>Web3 URLs (url.ts, defaults.ts)\<close>

subsection \<open>The platform's URL class\<close>

text \<open>
  \<open>new URL(href)\<close> and \<open>new URL(reference, base)\<close> are the platform's (the WHATWG
  URL standard). The part written out here covers hrefs of the shape
  \<open>scheme://host path ?query #fragment\<close> (path, query and fragment optional) whose
  host is not empty and whose components consist of letters, digits and the
  characters \<open>- . _ ~ = & +\<close> (and \<open>/\<close> in path, query and fragment), with no
  \<open>.\<close> or \<open>..\<close> path segment; for the schemes the standard calls special, hosts of
  letters and dots only, and not \<open>file\<close>. On such input the standard does no
  percent-encoding or path normalisation: it lowercases the scheme (and the host of a
  special scheme) and gives a special scheme's empty path the value \<open>/\<close>. Any other
  input yields \<open>Unmodelled\<close>, except an href without a colon or with an ill-formed
  scheme before its first colon, which the standard rejects with a \<open>TypeError\<close>.
\<close>

record URL =
  url_scheme :: string
  url_host :: string
  url_path :: string
  url_query :: "string option"
  url_fragment :: "string option"

definition URL_protocol :: "URL \<Rightarrow> string" where
  "URL_protocol u = url_scheme u @ '':''"

definition URL_hostname :: "URL \<Rightarrow> string" where
  "URL_hostname u = url_host u"

definition URL_pathname :: "URL \<Rightarrow> string" where
  "URL_pathname u = url_path u"

definition URL_search :: "URL \<Rightarrow> string" where
  "URL_search u =
     (case url_query u of None \<Rightarrow> [] | Some q \<Rightarrow> if q = [] then [] else ''?'' @ q)"

definition URL_hash :: "URL \<Rightarrow> string" where
  "URL_hash u =
     (case url_fragment u of None \<Rightarrow> [] | Some f \<Rightarrow> if f = [] then [] else ''#'' @ f)"

definition URL_href :: "URL \<Rightarrow> string" where
  "URL_href u =
     url_scheme u @ ''://'' @ url_host u @ url_path u
       @ (case url_query u of None \<Rightarrow> [] | Some q \<Rightarrow> ''?'' @ q)
       @ (case url_fragment u of None \<Rightarrow> [] | Some f \<Rightarrow> ''#'' @ f)"

definition is_alpha :: "char \<Rightarrow> bool" where
  "is_alpha c = (is_upper_ascii c \<or> is_lower_ascii c)"

definition ascii_lower_char :: "char \<Rightarrow> char" where
  "ascii_lower_char c = (if is_upper_ascii c then char_of ((of_char c :: nat) + 32) else c)"

definition is_scheme_char :: "char \<Rightarrow> bool" where
  "is_scheme_char c = (is_alpha c \<or> is_digit c \<or> c \<in> set ''+-.'')"

definition is_plain_char :: "char \<Rightarrow> bool" where
  "is_plain_char c = (is_alpha c \<or> is_digit c \<or> c \<in> set ''-._~=&+'')"

definition is_plain_or_slash :: "char \<Rightarrow> bool" where
  "is_plain_or_slash c = (is_plain_char c \<or> c = CHR ''/'')"

definition is_special_scheme :: "string \<Rightarrow> bool" where
  "is_special_scheme s = (s \<in> set [''ftp'', ''http'', ''https'', ''ws'', ''wss''])"

text \<open>Splitting at the first occurrence of a delimiter, when there is one.\<close>

definition split_first :: "char \<Rightarrow> string \<Rightarrow> string \<times> string option" where
  "split_first d s =
     (takeWhile (\<lambda>c. c \<noteq> d) s,
      case dropWhile (\<lambda>c. c \<noteq> d) s of [] \<Rightarrow> None | _ # rest \<Rightarrow> Some rest)"

text \<open>The segments of a path: the pieces between its slashes.\<close>

fun segments :: "string \<Rightarrow> string list" where
  "segments [] = [[]]"
| "segments (c # cs) =
     (if c = CHR ''/'' then [] # segments cs
      else (case segments cs of seg # rest \<Rightarrow> (c # seg) # rest | [] \<Rightarrow> [[c]]))"

definition plain_path :: "string \<Rightarrow> bool" where
  "plain_path p =
     (list_all is_plain_or_slash p
      \<and> list_all (\<lambda>seg. seg \<noteq> ''.'' \<and> seg \<noteq> ''..'') (segments p))"

definition plain_opt :: "string option \<Rightarrow> bool" where
  "plain_opt x = (case x of None \<Rightarrow> True | Some s \<Rightarrow> list_all is_plain_or_slash s)"

text \<open>
  Path, query and fragment of what follows the host: the fragment starts at the first
  \<open>#\<close>, the query at the first \<open>?\<close> before it.
\<close>

definition parse_tail :: "string \<Rightarrow> (string \<times> string option \<times> string option) option" where
  "parse_tail t =
     (let (pq, f) = split_first (CHR ''#'') t;
          (p, q) = split_first (CHR ''?'') pq
      in if (p = [] \<or> hd p = CHR ''/'') \<and> plain_path p \<and> plain_opt q \<and> plain_opt f
         then Some (p, q, f) else None)"

definition parse_host :: "string \<Rightarrow> string \<Rightarrow> string option" where
  "parse_host scheme h =
     (if h = [] then None
      else if is_special_scheme scheme
      then (if list_all (\<lambda>c. is_alpha c \<or> c = CHR ''.'') h
            then Some (map ascii_lower_char h) else None)
      else (if list_all is_plain_char h then Some h else None))"

text \<open>What follows \<open>scheme:\<close>, for a scheme already lowercased.\<close>

definition parse_after_scheme :: "string \<Rightarrow> string \<Rightarrow> error + URL" where
  "parse_after_scheme scheme rest =
     (if scheme = ''file'' \<or> take 2 rest \<noteq> ''//'' then Inl Unmodelled
      else
        (let authority = takeWhile (\<lambda>c. c \<notin> set ''/?#'') (drop 2 rest);
             tail = dropWhile (\<lambda>c. c \<notin> set ''/?#'') (drop 2 rest)
         in case (parse_host scheme authority, parse_tail tail) of
              (Some h, Some (p, q, f)) \<Rightarrow>
                Inr \<lparr>url_scheme = scheme, url_host = h,
                     url_path = (if p = [] \<and> is_special_scheme scheme then ''/'' else p),
                     url_query = q, url_fragment = f\<rparr>
            | _ \<Rightarrow> Inl Unmodelled))"

definition valid_scheme :: "string \<Rightarrow> bool" where
  "valid_scheme s = (s \<noteq> [] \<and> is_alpha (hd s) \<and> list_all is_scheme_char s)"

definition new_URL :: "string \<Rightarrow> error + URL" where
  "new_URL href =
     (case split_first (CHR '':'') href of
        (s, Some rest) \<Rightarrow>
          if valid_scheme s then parse_after_scheme (map ascii_lower_char s) rest
          else if list_all is_plain_or_slash s then Inl (TypeError ''Invalid URL'')
          else Inl Unmodelled
      | (s, None) \<Rightarrow> Inl (TypeError ''Invalid URL''))"

text \<open>
  \<open>new URL(reference, base)\<close> for the references \<open>toHttpsUrl\<close> builds: the empty
  reference (the base without its fragment), a fragment, a query, a reference that
  starts with \<open>//\<close> (it keeps the scheme of the base only) and a reference that starts
  with a single \<open>/\<close>, which keeps scheme and host of the base and replaces its whole
  path.
\<close>

definition new_URL_base :: "string \<Rightarrow> string \<Rightarrow> error + URL" where
  "new_URL_base reference base =
     (case new_URL base of
        Inl e \<Rightarrow> Inl e
      | Inr b \<Rightarrow>
          if reference = [] then Inr (b\<lparr>url_fragment := None\<rparr>)
          else if take 2 reference = ''//'' then
            parse_after_scheme (url_scheme b) reference
          else if hd reference \<in> set ''/?#'' then
            (case parse_tail reference of
               None \<Rightarrow> Inl Unmodelled
             | Some (p, q, f) \<Rightarrow>
                 if p \<noteq> [] then Inr (b\<lparr>url_path := p, url_query := q, url_fragment := f\<rparr>)
                 else if q \<noteq> None then Inr (b\<lparr>url_query := q, url_fragment := f\<rparr>)
                 else Inr (b\<lparr>url_fragment := f\<rparr>))
          else Inl Unmodelled)"

subsection \<open>Resolving Web3 URLs\<close>

definition defaultIpfsProvider :: string where
  "defaultIpfsProvider = ''https://ipfs.io/''"

definition buildIpfsHttpsUrl :: "string \<Rightarrow> string option \<Rightarrow> string" where
  "buildIpfsHttpsUrl cid ipfsProvider =
     (case ipfsProvider of None \<Rightarrow> defaultIpfsProvider | Some p \<Rightarrow> p) @ ''/ipfs/'' @ cid"

definition buildIpnsHttpUrl :: "string \<Rightarrow> string option \<Rightarrow> string" where
  "buildIpnsHttpUrl cid ipfsProvider =
     (case ipfsProvider of None \<Rightarrow> defaultIpfsProvider | Some p \<Rightarrow> p) @ ''/ipns/'' @ cid"

text \<open>The second argument is optional: \<open>None\<close> stands for the default gateway.\<close>

definition toHttpsUrl :: "string \<Rightarrow> string option \<Rightarrow> error + URL" where
  "toHttpsUrl href ipfsProvider0 =
     (let ipfsProvider = (case ipfsProvider0 of None \<Rightarrow> defaultIpfsProvider | Some p \<Rightarrow> p)
      in case new_URL href of
           Inl e \<Rightarrow> Inl e
         | Inr url \<Rightarrow>
             if URL_protocol url = ''https:'' then Inr url
             else if URL_protocol url = ''ipfs:'' then
               new_URL_base (URL_pathname url @ URL_search url @ URL_hash url)
                 (buildIpfsHttpsUrl (URL_hostname url) (Some ipfsProvider))
             else if URL_protocol url = ''ipns:'' then
               new_URL_base (URL_pathname url @ URL_search url @ URL_hash url)
                 (buildIpnsHttpUrl (URL_hostname url) (Some ipfsProvider))
             else Inl (Error (''Unsupported URL protocol: '' @ URL_protocol url)))"

definition isHttpsUrl :: "string \<Rightarrow> bool" where
  "isHttpsUrl href = (take 8 href = ''https://'')"

section \<open>The token metadata store (tokens.ts)\<close>

subsection \<open>Data\<close>

record LogoImage =
  src :: string

record TokenMetadata =
  logoImages :: "LogoImage list"

record Version =
  major :: nat
  minor :: nat
  patch :: nat

record TokenListMetadata =
  name :: string
  timestamp :: string
  href :: string
  version :: Version

text \<open>
  The output of the token list schema (token-list-validation.ts). A token carries the
  fields of a \<open>ChainAddress\<close> and more, so it is passed where a \<open>ChainAddress\<close> is
  expected. \<open>bridgeInfo\<close> is the list \<open>Object.entries\<close> returns.
\<close>

record BridgeInfo =
  tokenAddress :: Address

record Extensions =
  bridgeInfo :: "(string \<times> BridgeInfo) list option"

record TokenInfo = ChainAddress +
  t_name :: string
  symbol :: string
  decimals :: nat
  logoURI :: "string option"
  extensions :: "Extensions option"

record TokenList =
  l_name :: string
  l_timestamp :: string
  l_version :: Version
  tokens :: "TokenInfo list"

text \<open>
  \<open>TokenMetadata\<close> values are objects: several keys of \<open>#tokensByAddress\<close> may hold
  the same object, and \<open>addTokenLogoImageSources\<close> assigns to a field of it. The store
  therefore maps keys to references, and \<open>heap\<close> gives the object behind a reference;
  \<open>next_ref\<close> is the next reference to hand out. \<open>#tokenLists\<close> is a JavaScript
  \<open>Map\<close>, whose values are listed in order of first insertion.
\<close>

type_synonym ref = nat

record TokenMetadataStore =
  p_tokenLists :: "(string \<times> TokenListMetadata) list"
  p_tokensByAddress :: "ChainAddressKey \<rightharpoonup> ref"
  heap :: "ref \<Rightarrow> TokenMetadata"
  next_ref :: ref

definition new_TokenMetadataStore :: TokenMetadataStore where
  "new_TokenMetadataStore =
     \<lparr>p_tokenLists = [], p_tokensByAddress = Map.empty,
      heap = (\<lambda>_. \<lparr>logoImages = []\<rparr>), next_ref = 0\<rparr>"

text \<open>\<open>Map.prototype.set\<close>: a present key keeps its place, a new key goes last.\<close>

fun Map_set :: "'k \<Rightarrow> 'v \<Rightarrow> ('k \<times> 'v) list \<Rightarrow> ('k \<times> 'v) list" where
  "Map_set k v [] = [(k, v)]"
| "Map_set k v (e # es) = (if fst e = k then (k, v) # es else e # Map_set k v es)"

subsection \<open>Operations\<close>

text \<open>
  The loop of \<open>addTokenLogoImageSources\<close>: each new source is compared with the
  images the object held on entry (\<open>current\<close>), and pushed onto the copy \<open>acc\<close>.
\<close>

fun push_new_sources :: "LogoImage list \<Rightarrow> string list \<Rightarrow> LogoImage list \<Rightarrow> LogoImage list" where
  "push_new_sources current [] acc = acc"
| "push_new_sources current (s # rest) acc =
     push_new_sources current rest
       (if list_all (\<lambda>image. src image \<noteq> s) current then acc @ [\<lparr>src = s\<rparr>] else acc)"

definition addTokenLogoImageSources ::
  "'a ChainAddress_scheme \<Rightarrow> string list \<Rightarrow> TokenMetadataStore \<Rightarrow> ref \<times> TokenMetadataStore" where
  "addTokenLogoImageSources chainAddress newSources s =
     (let key = getChainAddressKey chainAddress;
          (tokenMetadata, s1) =
            (case p_tokensByAddress s key of
               Some r \<Rightarrow> (r, s)
             | None \<Rightarrow>
                 (next_ref s,
                  s\<lparr>p_tokensByAddress := (p_tokensByAddress s)(key \<mapsto> next_ref s),
                    heap := (heap s)(next_ref s := \<lparr>logoImages = []\<rparr>),
                    next_ref := Suc (next_ref s)\<rparr>));
          current = logoImages (heap s1 tokenMetadata);
          newLogoImages = push_new_sources current newSources current
      in (tokenMetadata,
          s1\<lparr>heap := (heap s1)(tokenMetadata := (heap s1 tokenMetadata)\<lparr>logoImages := newLogoImages\<rparr>)\<rparr>))"

text \<open>The result is the reference of the object found, \<open>None\<close> for \<open>null\<close>.\<close>

definition getTokenFromAddress :: "'a ChainAddress_scheme \<Rightarrow> TokenMetadataStore \<Rightarrow> ref option" where
  "getTokenFromAddress chainAddress s = p_tokensByAddress s (getChainAddressKey chainAddress)"

text \<open>The inner loop of \<open>fetchTokensFromList\<close>, over the entries of \<open>bridgeInfo\<close>.\<close>

fun bridge_entries ::
  "(string \<times> BridgeInfo) list \<Rightarrow> ref \<Rightarrow> string \<Rightarrow> TokenMetadataStore \<Rightarrow> TokenMetadataStore" where
  "bridge_entries [] tokenMetadata uri s = s"
| "bridge_entries ((chainIdString, info) # rest) tokenMetadata uri s =
     (let bridged = \<lparr>chainId = Number_of_string chainIdString, address = tokenAddress info\<rparr>;
          key = getChainAddressKey bridged;
          s1 = (if p_tokensByAddress s key = None
                then s\<lparr>p_tokensByAddress := (p_tokensByAddress s)(key \<mapsto> tokenMetadata)\<rparr>
                else s);
          s2 = snd (addTokenLogoImageSources bridged [uri] s1)
      in bridge_entries rest tokenMetadata uri s2)"

text \<open>The body of the outer loop, for one token of the validated list.\<close>

definition process_token :: "TokenInfo \<Rightarrow> TokenMetadataStore \<Rightarrow> TokenMetadataStore" where
  "process_token token s =
     (case logoURI token of
        None \<Rightarrow> s
      | Some uri \<Rightarrow>
          if uri \<noteq> [] \<and> isHttpsUrl uri then
            (let (tokenMetadata, s1) = addTokenLogoImageSources token [uri] s
             in case extensions token of
                  None \<Rightarrow> s1
                | Some ext \<Rightarrow>
                    (case bridgeInfo ext of
                       None \<Rightarrow> s1
                     | Some bridges \<Rightarrow> bridge_entries bridges tokenMetadata uri s1))
          else s)"

definition process_tokens :: "TokenInfo list \<Rightarrow> TokenMetadataStore \<Rightarrow> TokenMetadataStore" where
  "process_tokens ts s = foldl (\<lambda>s' token. process_token token s') s ts"

text \<open>
  The response of the fetch capability; \<open>json\<close> is the outcome of \<open>response.json()\<close>,
  which may throw.
\<close>

record 'raw Response =
  ok :: bool
  statusText :: string
  json :: "error + 'raw"

text \<open>
  \<open>fetchTokensFromList\<close>, given the fetch capability and the validator
  \<open>safeParse(tokenListSchema, _)\<close>. The result pairs the outcome (\<open>Inl\<close> for a thrown
  error) with the store as the call leaves it.
\<close>

definition fetchTokensFromList ::
  "(URL \<Rightarrow> error + 'raw Response) \<Rightarrow> ('raw \<Rightarrow> 'issues + TokenList) \<Rightarrow> URL
     \<Rightarrow> TokenMetadataStore \<Rightarrow> (error + unit) \<times> TokenMetadataStore" where
  "fetchTokensFromList fetch safeParse tokenListUrl s =
     (case fetch tokenListUrl of
        Inl e \<Rightarrow> (Inl e, s)
      | Inr response \<Rightarrow>
          if \<not> ok response
          then (Inl (Error (''Failed to fetch token list: '' @ statusText response)), s)
          else
            (case json response of
               Inl e \<Rightarrow> (Inl e, s)
             | Inr raw \<Rightarrow>
                 (case safeParse raw of
                    Inl issues \<Rightarrow> (Inl (Error ''Unable to parse token list.''), s)
                  | Inr output \<Rightarrow>
                      (let s1 = process_tokens (tokens output) s
                       in (Inr (),
                           s1\<lparr>p_tokenLists :=
                                Map_set (URL_href tokenListUrl)
                                  \<lparr>name = l_name output, timestamp = l_timestamp output,
                                   href = URL_href tokenListUrl, version = l_version output\<rparr>
                                  (p_tokenLists s1)\<rparr>)))))"

definition tokenLists :: "TokenMetadataStore \<Rightarrow> TokenListMetadata list" where
  "tokenLists s = map snd (p_tokenLists s)"

text \<open>The argument is a URL object (\<open>Inl\<close>) or a string (\<open>Inr\<close>), which is parsed first.\<close>

definition getTokenListMetadata ::
  "URL + string \<Rightarrow> TokenMetadataStore \<Rightarrow> error + TokenListMetadata option" where
  "getTokenListMetadata tokenListUrl s =
     (case tokenListUrl of
        Inl u \<Rightarrow> Inr (map_of (p_tokenLists s) (URL_href u))
      | Inr str \<Rightarrow>
          (case new_URL str of
             Inl e \<Rightarrow> Inl e
           | Inr u \<Rightarrow> Inr (map_of (p_tokenLists s) (URL_href u))))"

text \<open>
  Every reference held by the index has been handed out: the invariant of the stores
  the operations build.
\<close>

definition store_ok :: "TokenMetadataStore \<Rightarrow> bool" where
  "store_ok s = (\<forall>k r. p_tokensByAddress s k = Some r \<longrightarrow> r < next_ref s)"

section \<open>Invariants used in the proofs\<close>

text \<open>Every cached answer is the answer of the regular expression for its key.\<close>

definition cache_sound :: "(string, bool) LruCache \<Rightarrow> bool" where
  "cache_sound c = list_all (\<lambda>e. snd e = addressRegex_test (fst e)) (entries c)"

definition cache_bounded :: "('k, 'v) LruCache \<Rightarrow> bool" where
  "cache_bounded c = (length (entries c) \<le> maxSize c)"

text \<open>
  A later store extends an earlier one: no reference is taken back, every key keeps the
  object it had, and the objects handed out so far have only gained images.
\<close>

definition store_extends :: "TokenMetadataStore \<Rightarrow> TokenMetadataStore \<Rightarrow> bool" where
  "store_extends s s' =
     (next_ref s \<le> next_ref s'
      \<and> (\<forall>k r. p_tokensByAddress s k = Some r \<longrightarrow> p_tokensByAddress s' k = Some r)
      \<and> (\<forall>r. r < next_ref s \<longrightarrow>
            set (logoImages (heap s r)) \<subseteq> set (logoImages (heap s' r))))"

section \<open>Properties of chain-address.ts\<close>

subsection \<open>Decimal strings\<close>

declare String_of_number.simps [simp del]

lemma of_char_lt_256: "(of_char c :: nat) < 256"
proof -
  have "(of_char c :: nat) mod 256 = of_char c" by (rule of_char_mod_256)
  then show ?thesis by (metis mod_less_divisor zero_less_numeral)
qed

lemma char_eq_code: "(c = d) = ((of_char c :: nat) = of_char d)"
  by (simp add: of_char_eq_iff)

lemma digit_val_digit_char: "d < 10 \<Longrightarrow> digit_val (digit_char d) = d"
  by (simp add: digit_val_def digit_char_def)

lemma digit_char_not_underscore: "d < 10 \<Longrightarrow> digit_char d \<noteq> CHR ''_''"
  by (simp add: digit_char_def char_eq_code [of _ "CHR ''_''"])

lemma Number_of_string_snoc:
  "Number_of_string (s @ [c]) = 10 * Number_of_string s + digit_val c"
  by (simp add: Number_of_string_def)

lemma Number_of_String: "Number_of_string (String_of_number n) = n"
proof (induction n rule: String_of_number.induct)
  case (1 n)
  show ?case
  proof (cases "n < 10")
    case True
    then show ?thesis
      by (subst String_of_number.simps)
         (simp add: Number_of_string_def digit_val_digit_char)
  next
    case False
    then have "Number_of_string (String_of_number n) =
        10 * Number_of_string (String_of_number (n div 10)) + digit_val (digit_char (n mod 10))"
      by (subst String_of_number.simps) (simp add: Number_of_string_snoc)
    with False 1 show ?thesis by (simp add: digit_val_digit_char)
  qed
qed

lemma String_of_number_inj: "String_of_number n = String_of_number m \<Longrightarrow> n = m"
  by (metis Number_of_String)

lemma String_of_number_no_underscore: "CHR ''_'' \<notin> set (String_of_number n)"
proof (induction n rule: String_of_number.induct)
  case (1 n)
  show ?case
  proof (cases "n < 10")
    case True
    then show ?thesis
      using digit_char_not_underscore [of n]
      by (subst String_of_number.simps) auto
  next
    case False
    with 1 show ?thesis
      using digit_char_not_underscore [of "n mod 10"]
      by (subst String_of_number.simps) auto
  qed
qed

lemma split_at_separator:
  "c \<notin> set xs \<Longrightarrow> c \<notin> set ys \<Longrightarrow> xs @ c # a = ys @ c # b \<Longrightarrow> xs = ys \<and> a = b"
proof (induction xs arbitrary: ys)
  case Nil
  then show ?case by (cases ys) auto
next
  case (Cons x xs)
  then show ?case by (cases ys) auto
qed

text \<open>
  For chain IDs in the range of the conversion, two chain addresses have the same key
  exactly when their chain IDs are equal and their addresses agree, character by
  character, after the first two characters.
\<close>

lemma getChainAddressKey_eq_iff:
  "chainId ca < 10 ^ 21 \<Longrightarrow> chainId cb < 10 ^ 21 \<Longrightarrow>
   (getChainAddressKey ca = getChainAddressKey cb) =
     (chainId ca = chainId cb \<and> drop 2 (address ca) = drop 2 (address cb))"
proof
  assume "getChainAddressKey ca = getChainAddressKey cb"
  then have "String_of_number (chainId ca) @ CHR ''_'' # drop 2 (address ca) =
             String_of_number (chainId cb) @ CHR ''_'' # drop 2 (address cb)"
    by (simp add: getChainAddressKey_def slice2_def)
  then have "String_of_number (chainId ca) = String_of_number (chainId cb)
             \<and> drop 2 (address ca) = drop 2 (address cb)"
    by (rule split_at_separator [OF String_of_number_no_underscore String_of_number_no_underscore])
  then show "chainId ca = chainId cb \<and> drop 2 (address ca) = drop 2 (address cb)"
    by (auto dest: String_of_number_inj)
next
  assume "chainId ca = chainId cb \<and> drop 2 (address ca) = drop 2 (address cb)"
  then show "getChainAddressKey ca = getChainAddressKey cb"
    by (simp add: getChainAddressKey_def slice2_def)
qed

subsection \<open>The format of keys\<close>

text \<open>
  C1 does not hold of the code. \<open>getChainAddressKey\<close> copies the address without its
  first two characters as it is written; no letter changes case. A well-formed lowercase
  address on chain 1 and the same address with its hex letters uppercased get the two
  different keys below, the second of them not in lowercase, and an entry stored under
  one spelling is not found under the other. An older copy of the store in the same
  source file keys by the address that viem's \<open>getAddress\<close> returns, which is the same
  for every spelling of an address.
\<close>

theorem getChainAddressKey_case_sensitive:
  "address_syntax ''0x6b175474e89094c44da98b954eedeac495271d0f''
   \<and> upper_hex_digits ''0x6b175474e89094c44da98b954eedeac495271d0f''
       = ''0x6B175474E89094C44DA98B954EEDEAC495271D0F''
   \<and> getChainAddressKey \<lparr>chainId = 1, address = ''0x6b175474e89094c44da98b954eedeac495271d0f''\<rparr>
       = ''1_6b175474e89094c44da98b954eedeac495271d0f''
   \<and> getChainAddressKey
         \<lparr>chainId = 1, address = upper_hex_digits ''0x6b175474e89094c44da98b954eedeac495271d0f''\<rparr>
       = ''1_6B175474E89094C44DA98B954EEDEAC495271D0F''
   \<and> getTokenFromAddress
         \<lparr>chainId = 1, address = ''0x6b175474e89094c44da98b954eedeac495271d0f''\<rparr>
         (snd (addTokenLogoImageSources
            \<lparr>chainId = 1, address = ''0x6B175474E89094C44DA98B954EEDEAC495271D0F''\<rparr>
            [''/static/images/dai.png''] new_TokenMetadataStore))
       = None"
  by code_simp

subsection \<open>The address predicate\<close>

lemma lower_hex_lower: "is_lower_hex (toLocaleLowerCase_char c) = is_hex_digit c"
  using of_char_lt_256 [of c]
  by (auto simp: is_lower_hex_def toLocaleLowerCase_char_def is_hex_digit_def is_digit_def Let_def)

lemma lower_is_zero: "(toLocaleLowerCase_char c = CHR ''0'') = (c = CHR ''0'')"
  using of_char_lt_256 [of c]
  by (auto simp: toLocaleLowerCase_char_def Let_def char_eq_code [of _ "CHR ''0''"])

lemma lower_is_x: "(toLocaleLowerCase_char c = CHR ''x'') = (c = CHR ''x'' \<or> c = CHR ''X'')"
  using of_char_lt_256 [of c]
  by (auto simp: toLocaleLowerCase_char_def Let_def
      char_eq_code [of _ "CHR ''x''"] char_eq_code [of _ "CHR ''X''"])

lemma addressRegex_lowercased: "addressRegex_test (toLocaleLowerCase s) = address_syntax s"
proof (cases s)
  case Nil
  then show ?thesis
    by (simp add: addressRegex_test_def toLocaleLowerCase_def address_syntax_def)
next
  case outer: (Cons c0 t)
  show ?thesis
  proof (cases t)
    case Nil
    with outer show ?thesis
      by (simp add: addressRegex_test_def toLocaleLowerCase_def address_syntax_def)
  next
    case (Cons c1 digits)
    have "list_all is_lower_hex (map toLocaleLowerCase_char digits) = list_all is_hex_digit digits"
      by (induction digits) (simp_all add: lower_hex_lower)
    with Cons outer show ?thesis
      by (auto simp: addressRegex_test_def toLocaleLowerCase_def address_syntax_def
          lower_is_zero lower_is_x)
  qed
qed

lemma cache_sound_lookup:
  "cache_sound c \<Longrightarrow> map_of (entries c) k = Some v \<Longrightarrow> v = addressRegex_test k"
proof -
  assume a: "cache_sound c" and b: "map_of (entries c) k = Some v"
  from b have "(k, v) \<in> set (entries c)" by (rule map_of_SomeD)
  with a have "snd (k, v) = addressRegex_test (fst (k, v))"
    unfolding cache_sound_def list_all_iff by blast
  then show ?thesis by simp
qed

lemma cache_sound_mru:
  "cache_sound c \<Longrightarrow> v = addressRegex_test k \<Longrightarrow> cache_sound (setMostRecentlyUsed k v c)"
  by (auto simp: cache_sound_def setMostRecentlyUsed_def list_all_iff)

lemma cache_sound_prune: "cache_sound c \<Longrightarrow> cache_sound (pruneToMaxSize c)"
  by (cases "entries c") (auto simp: cache_sound_def pruneToMaxSize_def)

lemma isAddress_sound:
  assumes "cache_sound c"
  shows "fst (isAddress s c) = addressRegex_test (toLocaleLowerCase s)"
    and "cache_sound (snd (isAddress s c))"
proof -
  let ?a = "toLocaleLowerCase s"
  show "fst (isAddress s c) = addressRegex_test ?a"
    using cache_sound_lookup [OF assms, of ?a]
    by (auto simp: isAddress_def LruCache_get_def Let_def split: option.splits)
  show "cache_sound (snd (isAddress s c))"
    using cache_sound_lookup [OF assms, of ?a] assms
    by (auto simp: isAddress_def LruCache_get_def LruCache_set_def Let_def
        intro!: cache_sound_mru cache_sound_prune split: option.splits)
qed

lemma isAddress_calls_sound: "cache_sound c \<Longrightarrow> cache_sound (isAddress_calls inputs c)"
  by (induction inputs arbitrary: c) (simp_all add: isAddress_calls_def isAddress_sound(2))

lemma cache_sound_initial: "cache_sound isAddressCache"
  by (simp add: cache_sound_def isAddressCache_def new_LruCache_def)

lemma filter_fst_shorter:
  "map_of es k = Some v \<Longrightarrow> length (filter (\<lambda>e. fst e \<noteq> k) es) < length es"
  by (induction es) (auto simp: less_Suc_eq_le split: if_splits)

lemma cache_bounded_get: "cache_bounded c \<Longrightarrow> cache_bounded (snd (LruCache_get k c))"
  using filter_fst_shorter [of "entries c" k]
  by (auto simp: cache_bounded_def LruCache_get_def setMostRecentlyUsed_def split: option.splits)

lemma cache_bounded_set:
  assumes "cache_bounded c"
  shows "cache_bounded (LruCache_set k v c)"
proof -
  have "length (filter (\<lambda>e. fst e \<noteq> k) (entries c)) \<le> length (entries c)"
    by (rule length_filter_le)
  also have "\<dots> \<le> maxSize c"
    using assms by (simp add: cache_bounded_def)
  finally show ?thesis
    by (auto simp: cache_bounded_def LruCache_set_def pruneToMaxSize_def setMostRecentlyUsed_def)
qed

lemma isAddress_bounded: "cache_bounded c \<Longrightarrow> cache_bounded (snd (isAddress s c))"
  using cache_bounded_get [of c "toLocaleLowerCase s"]
  by (auto simp: isAddress_def Let_def cache_bounded_set split: option.splits prod.splits)

lemma isAddress_calls_bounded: "cache_bounded c \<Longrightarrow> cache_bounded (isAddress_calls inputs c)"
  by (induction inputs arbitrary: c) (simp_all add: isAddress_calls_def isAddress_bounded)

lemma isAddress_maxSize: "maxSize (snd (isAddress s c)) = maxSize c"
  by (auto simp: isAddress_def Let_def LruCache_get_def LruCache_set_def pruneToMaxSize_def
      setMostRecentlyUsed_def split: option.splits prod.splits)

lemma isAddress_calls_maxSize: "maxSize (isAddress_calls inputs c) = maxSize c"
  by (induction inputs arbitrary: c) (simp_all add: isAddress_calls_def isAddress_maxSize)

text \<open>
  C8. Whatever calls of \<open>isAddress\<close> came before (starting from the module's empty
  cache), \<open>isAddress s\<close> answers true exactly when \<open>s\<close> is, in either case, the
  prefix \<open>0x\<close> followed by exactly 40 hexadecimal digits; the answer depends on \<open>s\<close>
  alone. The cache never holds more than its 8192 entries.
\<close>

theorem isAddress_cache_transparent:
  "fst (isAddress s (isAddress_calls earlier isAddressCache)) = address_syntax s
   \<and> length (entries (isAddress_calls earlier isAddressCache)) \<le> 8192"
proof
  show "fst (isAddress s (isAddress_calls earlier isAddressCache)) = address_syntax s"
    using isAddress_sound(1) [OF isAddress_calls_sound [OF cache_sound_initial]]
    by (simp add: addressRegex_lowercased)
  have "cache_bounded (isAddress_calls earlier isAddressCache)"
    by (rule isAddress_calls_bounded)
       (simp add: cache_bounded_def isAddressCache_def new_LruCache_def)
  then show "length (entries (isAddress_calls earlier isAddressCache)) \<le> 8192"
    by (simp add: cache_bounded_def isAddress_calls_maxSize isAddressCache_def new_LruCache_def)
qed

section \<open>Properties of url.ts\<close>

text \<open>
  C9. When the href parses to a URL whose protocol is none of \<open>https:\<close>, \<open>ipfs:\<close>,
  \<open>ipns:\<close>, \<open>toHttpsUrl\<close> throws an error whose message names that protocol and
  returns no URL; when the protocol is \<open>https:\<close> it returns the parsed URL as it is.
\<close>

theorem toHttpsUrl_protocols:
  "new_URL h = Inr url \<Longrightarrow>
     (URL_protocol url = ''https:'' \<longrightarrow> toHttpsUrl h g = Inr url)
     \<and> (URL_protocol url \<notin> {''https:'', ''ipfs:'', ''ipns:''} \<longrightarrow>
          toHttpsUrl h g = Inl (Error (''Unsupported URL protocol: '' @ URL_protocol url)))"
  by (simp add: toHttpsUrl_def)

theorem toHttpsUrl_protocols_witness:
  "toHttpsUrl ''ftp://example.com/list.json'' None = Inl (Error ''Unsupported URL protocol: ftp:'')
   \<and> toHttpsUrl ''https://tokens.coingecko.com/uniswap/all.json'' None
       = Inr \<lparr>url_scheme = ''https'', url_host = ''tokens.coingecko.com'',
              url_path = ''/uniswap/all.json'', url_query = None, url_fragment = None\<rparr>"
proof -
  have f: "new_URL ''ftp://example.com/list.json''
      = Inr \<lparr>url_scheme = ''ftp'', url_host = ''example.com'', url_path = ''/list.json'',
             url_query = None, url_fragment = None\<rparr>"
    by code_simp
  have h: "new_URL ''https://tokens.coingecko.com/uniswap/all.json''
      = Inr \<lparr>url_scheme = ''https'', url_host = ''tokens.coingecko.com'',
             url_path = ''/uniswap/all.json'', url_query = None, url_fragment = None\<rparr>"
    by code_simp
  show ?thesis
    using toHttpsUrl_protocols [OF f, of None] toHttpsUrl_protocols [OF h, of None]
    by (simp add: URL_protocol_def)
qed

text \<open>
  C6 does not hold of the code. \<open>toHttpsUrl\<close> resolves the original path, query and
  fragment as a reference against the base \<open>gateway/ipfs/cid\<close>; a non-empty path
  starts with a slash, and such a reference replaces the whole path of its base. For
  \<open>ipfs://cid/path?x=1#y\<close> and the gateway \<open>https://ipfs.io/\<close> the result is
  \<open>https://ipfs.io/path?x=1#y\<close>: path, query and fragment are kept, \<open>/ipfs/cid\<close>
  is lost.
\<close>

theorem toHttpsUrl_ipfs_path_replaces_cid:
  "map_sum id URL_href (toHttpsUrl ''ipfs://cid/path?x=1#y'' (Some ''https://ipfs.io/''))
     = Inr ''https://ipfs.io/path?x=1#y''"
  by code_simp

section \<open>Properties of the store\<close>

subsection \<open>Adding image sources\<close>

lemma push_new_sources_eq:
  "push_new_sources current new acc =
     acc @ map (\<lambda>s. \<lparr>src = s\<rparr>) (filter (\<lambda>s. s \<notin> src ` set current) new)"
  by (induction new arbitrary: acc) (auto simp: list_all_iff)

lemma push_new_sources_known:
  "set new \<subseteq> src ` set current \<Longrightarrow> push_new_sources current new acc = acc"
  by (induction new arbitrary: acc) (auto simp: list_all_iff)

lemma push_new_sources_covers:
  "set new \<subseteq> src ` set (push_new_sources current new current)"
proof
  fix x assume x: "x \<in> set new"
  show "x \<in> src ` set (push_new_sources current new current)"
  proof (cases "x \<in> src ` set current")
    case True
    then show ?thesis by (auto simp: push_new_sources_eq)
  next
    case False
    with x have "\<lparr>src = x\<rparr> \<in> set (push_new_sources current new current)"
      by (simp add: push_new_sources_eq)
    then show ?thesis by force
  qed
qed

lemma addTokenLogoImageSources_key:
  "p_tokensByAddress (snd (addTokenLogoImageSources ca new s)) (getChainAddressKey ca)
     = Some (fst (addTokenLogoImageSources ca new s))"
  by (simp add: addTokenLogoImageSources_def Let_def split: option.splits)

lemma addTokenLogoImageSources_covers:
  "set new \<subseteq> src ` set (logoImages (heap (snd (addTokenLogoImageSources ca new s))
                                         (fst (addTokenLogoImageSources ca new s))))"
  using push_new_sources_covers
  by (simp add: addTokenLogoImageSources_def Let_def split: option.splits)

lemma addTokenLogoImageSources_known:
  assumes "p_tokensByAddress s (getChainAddressKey ca) = Some r"
    and "set new \<subseteq> src ` set (logoImages (heap s r))"
  shows "addTokenLogoImageSources ca new s = (r, s)"
  using assms by (simp add: addTokenLogoImageSources_def Let_def push_new_sources_known)

text \<open>
  A second call with the same arguments returns the same object and leaves the store as
  the first call left it, and what an entry held before a call is a prefix of what it
  holds after.
\<close>

lemma addTokenLogoImageSources_idempotent:
  "addTokenLogoImageSources ca new (snd (addTokenLogoImageSources ca new s))
     = (fst (addTokenLogoImageSources ca new s), snd (addTokenLogoImageSources ca new s))"
  by (rule addTokenLogoImageSources_known
        [OF addTokenLogoImageSources_key addTokenLogoImageSources_covers])

lemma addTokenLogoImageSources_keeps_order:
  "p_tokensByAddress s (getChainAddressKey ca) = Some r \<Longrightarrow>
   logoImages (heap (snd (addTokenLogoImageSources ca new s)) r)
     = logoImages (heap s r)
       @ map (\<lambda>x. \<lparr>src = x\<rparr>) (filter (\<lambda>x. x \<notin> src ` set (logoImages (heap s r))) new)"
  by (simp add: addTokenLogoImageSources_def Let_def push_new_sources_eq)

text \<open>
  An entry without a repeated source stays so when the sources of the call are distinct.
\<close>

lemma addTokenLogoImageSources_distinct:
  assumes "p_tokensByAddress s (getChainAddressKey ca) = Some r"
    and "distinct (map src (logoImages (heap s r)))" and "distinct new"
  shows "distinct (map src (logoImages (heap (snd (addTokenLogoImageSources ca new s)) r)))"
proof -
  have "map src (map (\<lambda>x. \<lparr>src = x\<rparr>) xs) = xs" for xs
    by (induction xs) simp_all
  with assms show ?thesis
    by (auto simp: addTokenLogoImageSources_keeps_order)
qed

text \<open>
  C2 does not hold of the code in full: the sources of one call are compared with the
  images the entry held before the call, not with each other. A call that names the
  same source twice for a new entry stores it twice.
\<close>

theorem addTokenLogoImageSources_repeated_source:
  "(let (r, s) = addTokenLogoImageSources
        \<lparr>chainId = 1, address = ''0x6B175474E89094C44Da98b954EedeAC495271d0F''\<rparr>
        [''/static/images/dai.png'', ''/static/images/dai.png''] new_TokenMetadataStore
    in logoImages (heap s r))
   = [\<lparr>src = ''/static/images/dai.png''\<rparr>, \<lparr>src = ''/static/images/dai.png''\<rparr>]"
  by code_simp

subsection \<open>Addresses are not checked\<close>

text \<open>
  C7 does not hold of the code. \<open>0xzz\<close> is not a well-formed address (\<open>isAddress\<close>
  answers false), yet \<open>getTokenFromAddress\<close> answers \<open>null\<close> for it instead of
  failing, and \<open>addTokenLogoImageSources\<close> creates an entry for it, under the key
  \<open>1_zz\<close>, which \<open>getTokenFromAddress\<close> then finds. The store calls no check and no
  canonicalisation of the address. An older copy of the store in the same source file
  passes the address through viem's \<open>getAddress\<close> first, which rejects a malformed
  address.
\<close>

theorem store_accepts_malformed_address:
  "\<not> address_syntax ''0xzz''
   \<and> \<not> fst (isAddress ''0xzz'' isAddressCache)
   \<and> getTokenFromAddress \<lparr>chainId = 1, address = ''0xzz''\<rparr> new_TokenMetadataStore = None
   \<and> (let (r, s) = addTokenLogoImageSources \<lparr>chainId = 1, address = ''0xzz''\<rparr>
                      [''/static/images/dai.png''] new_TokenMetadataStore
      in p_tokensByAddress s ''1_zz'' = Some r
         \<and> getTokenFromAddress \<lparr>chainId = 1, address = ''0xzz''\<rparr> s = Some r
         \<and> logoImages (heap s r) = [\<lparr>src = ''/static/images/dai.png''\<rparr>])"
  by code_simp

subsection \<open>Tokens without an https logo\<close>

lemma process_tokens_append:
  "process_tokens (xs @ ys) s = process_tokens ys (process_tokens xs s)"
  by (simp add: process_tokens_def)

lemma process_tokens_Cons:
  "process_tokens (t # ts) s = process_tokens ts (process_token t s)"
  by (simp add: process_tokens_def)

text \<open>
  C10. A token whose \<open>logoURI\<close> is absent or does not start with \<open>https://\<close> is
  skipped whole: the body of the loop returns the store it was given (no entry for
  the token, no alias and no source for its bridge targets), so a list with the token
  leaves the store as the list without it does.
\<close>

theorem process_token_without_https_logo:
  "(\<forall>uri. logoURI token = Some uri \<longrightarrow> \<not> isHttpsUrl uri) \<Longrightarrow>
     process_token token s = s
     \<and> process_tokens (before @ token # after) s = process_tokens (before @ after) s"
proof -
  assume a: "\<forall>uri. logoURI token = Some uri \<longrightarrow> \<not> isHttpsUrl uri"
  then have "process_token token s' = s'" for s'
    by (cases "logoURI token") (simp_all add: process_token_def)
  then show ?thesis
    by (simp add: process_tokens_append process_tokens_Cons)
qed

theorem process_token_without_https_logo_witness:
  "process_token
     \<lparr>chainId = 1, address = ''0x6B175474E89094C44Da98b954EedeAC495271d0F'',
      t_name = ''Dai'', symbol = ''DAI'', decimals = 18, logoURI = Some ''ipfs://cid/dai.png'',
      extensions = Some \<lparr>bridgeInfo = Some [(''8453'',
        \<lparr>tokenAddress = ''0x50c5725949A6F0c72E6C4a641F24049A917DB0Cb''\<rparr>)]\<rparr>\<rparr>
     new_TokenMetadataStore = new_TokenMetadataStore"
proof -
  let ?t = "\<lparr>chainId = 1, address = ''0x6B175474E89094C44Da98b954EedeAC495271d0F'',
      t_name = ''Dai'', symbol = ''DAI'', decimals = 18, logoURI = Some ''ipfs://cid/dai.png'',
      extensions = Some \<lparr>bridgeInfo = Some [(''8453'',
        \<lparr>tokenAddress = ''0x50c5725949A6F0c72E6C4a641F24049A917DB0Cb''\<rparr>)]\<rparr>\<rparr>"
  have h: "\<forall>uri. logoURI ?t = Some uri \<longrightarrow> \<not> isHttpsUrl uri"
    by (simp add: isHttpsUrl_def)
  from process_token_without_https_logo [OF h, of new_TokenMetadataStore "[]" "[]"]
  show ?thesis by simp
qed

subsection \<open>The store only grows\<close>

lemma store_extends_refl: "store_extends s s"
  by (simp add: store_extends_def)

lemma store_extends_trans:
  "store_extends s t \<Longrightarrow> store_extends t u \<Longrightarrow> store_extends s u"
  unfolding store_extends_def by (meson order_trans less_le_trans)

lemma addTokenLogoImageSources_extends:
  assumes "store_ok s"
  shows "store_ok (snd (addTokenLogoImageSources ca new s))"
    and "store_extends s (snd (addTokenLogoImageSources ca new s))"
    and "fst (addTokenLogoImageSources ca new s) < next_ref (snd (addTokenLogoImageSources ca new s))"
proof -
  show "store_ok (snd (addTokenLogoImageSources ca new s))"
    using assms
    by (auto simp: addTokenLogoImageSources_def Let_def store_ok_def less_Suc_eq
        split: option.splits)
  show "store_extends s (snd (addTokenLogoImageSources ca new s))"
    using assms
    by (auto simp: addTokenLogoImageSources_def Let_def store_ok_def store_extends_def
        push_new_sources_eq split: option.splits)
  show "fst (addTokenLogoImageSources ca new s) < next_ref (snd (addTokenLogoImageSources ca new s))"
    using assms
    by (auto simp: addTokenLogoImageSources_def Let_def store_ok_def split: option.splits)
qed

lemma bridge_entries_append:
  "bridge_entries (xs @ ys) tm uri s = bridge_entries ys tm uri (bridge_entries xs tm uri s)"
  by (induction xs arbitrary: s) (auto simp: Let_def)

lemma alias_extends:
  assumes "store_ok s" "tm < next_ref s" "p_tokensByAddress s k = None"
  shows "store_ok (s\<lparr>p_tokensByAddress := (p_tokensByAddress s)(k \<mapsto> tm)\<rparr>)"
    and "store_extends s (s\<lparr>p_tokensByAddress := (p_tokensByAddress s)(k \<mapsto> tm)\<rparr>)"
  using assms by (auto simp: store_ok_def store_extends_def)

lemma bridge_entries_extends:
  "store_ok s \<Longrightarrow> tm < next_ref s \<Longrightarrow>
     store_ok (bridge_entries bs tm uri s) \<and> store_extends s (bridge_entries bs tm uri s)"
proof (induction bs arbitrary: s)
  case Nil
  then show ?case by (simp add: store_extends_refl)
next
  case (Cons b bs)
  obtain cs info where b: "b = (cs, info)" by (cases b)
  define bridged where "bridged = \<lparr>chainId = Number_of_string cs, address = tokenAddress info\<rparr>"
  define s1 where "s1 = (if p_tokensByAddress s (getChainAddressKey bridged) = None
      then s\<lparr>p_tokensByAddress := (p_tokensByAddress s)(getChainAddressKey bridged \<mapsto> tm)\<rparr>
      else s)"
  define s2 where "s2 = snd (addTokenLogoImageSources bridged [uri] s1)"
  have step: "bridge_entries (b # bs) tm uri s = bridge_entries bs tm uri s2"
    by (simp add: b bridged_def s1_def s2_def Let_def)
  have ok1: "store_ok s1" and ext1: "store_extends s s1"
    using Cons.prems alias_extends [of s tm "getChainAddressKey bridged"]
    by (auto simp: s1_def store_extends_refl)
  have ok2: "store_ok s2" and ext2: "store_extends s1 s2"
    using addTokenLogoImageSources_extends [OF ok1] by (simp_all add: s2_def)
  have ext: "store_extends s s2" by (rule store_extends_trans [OF ext1 ext2])
  then have "tm < next_ref s2" using Cons.prems(2) by (simp add: store_extends_def)
  with Cons.IH [OF ok2] have "store_ok (bridge_entries bs tm uri s2)"
    and "store_extends s2 (bridge_entries bs tm uri s2)" by simp_all
  with ext step show ?case by (auto intro: store_extends_trans)
qed

lemma process_token_extends:
  assumes "store_ok s"
  shows "store_ok (process_token t s) \<and> store_extends s (process_token t s)"
proof (cases "\<exists>uri. logoURI t = Some uri \<and> uri \<noteq> [] \<and> isHttpsUrl uri")
  case False
  then have "process_token t s = s"
    by (cases "logoURI t") (auto simp: process_token_def)
  with assms show ?thesis by (simp add: store_extends_refl)
next
  case True
  then obtain uri where uri: "logoURI t = Some uri" "uri \<noteq> []" "isHttpsUrl uri" by blast
  define tm where "tm = fst (addTokenLogoImageSources t [uri] s)"
  define s1 where "s1 = snd (addTokenLogoImageSources t [uri] s)"
  have ok1: "store_ok s1" and ext1: "store_extends s s1" and tm: "tm < next_ref s1"
    using addTokenLogoImageSources_extends [OF assms, of t "[uri]"]
    by (simp_all add: s1_def tm_def)
  have "process_token t s = s1 \<or> (\<exists>bs. process_token t s = bridge_entries bs tm uri s1)"
    using uri
    by (auto simp: process_token_def s1_def tm_def split_beta split: option.splits)
  then show ?thesis
    using ok1 ext1 bridge_entries_extends [OF ok1 tm]
    by (auto intro: store_extends_trans)
qed

lemma process_tokens_extends:
  "store_ok s \<Longrightarrow> store_ok (process_tokens ts s) \<and> store_extends s (process_tokens ts s)"
proof (induction ts arbitrary: s)
  case Nil
  then show ?case by (simp add: process_tokens_def store_extends_refl)
next
  case (Cons t ts)
  from process_token_extends [OF Cons.prems, of t]
  have ok: "store_ok (process_token t s)" and ext: "store_extends s (process_token t s)"
    by simp_all
  from Cons.IH [OF ok] ext show ?case
    by (auto simp: process_tokens_Cons intro: store_extends_trans)
qed

subsection \<open>Bridge targets\<close>

lemma LogoImage_eta: "\<lparr>src = src (x :: LogoImage)\<rparr> = x"
  by (cases x) simp

lemma LogoImage_src_mem: "x \<in> src ` set imgs \<Longrightarrow> \<lparr>src = x\<rparr> \<in> set imgs"
  by (auto simp: LogoImage_eta)

lemma bridge_entries_head:
  fixes cs :: string and info :: BridgeInfo and s :: TokenMetadataStore and tm :: ref
    and rest :: "(string \<times> BridgeInfo) list" and uri :: string
  assumes ok: "store_ok s" and tm: "tm < next_ref s"
  defines "k \<equiv> getChainAddressKey \<lparr>chainId = Number_of_string cs, address = tokenAddress info\<rparr>"
  defines "r \<equiv> (case p_tokensByAddress s k of None \<Rightarrow> tm | Some r' \<Rightarrow> r')"
  defines "s' \<equiv> bridge_entries ((cs, info) # rest) tm uri s"
  shows "p_tokensByAddress s' k = Some r \<and> \<lparr>src = uri\<rparr> \<in> set (logoImages (heap s' r))"
proof -
  define bridged where "bridged = \<lparr>chainId = Number_of_string cs, address = tokenAddress info\<rparr>"
  define s1 where "s1 = (if p_tokensByAddress s k = None
      then s\<lparr>p_tokensByAddress := (p_tokensByAddress s)(k \<mapsto> tm)\<rparr> else s)"
  define s2 where "s2 = snd (addTokenLogoImageSources bridged [uri] s1)"
  have step: "s' = bridge_entries rest tm uri s2"
    by (simp add: s'_def k_def bridged_def s1_def s2_def Let_def)
  have k1: "p_tokensByAddress s1 k = Some r"
    by (auto simp: s1_def r_def)
  have ok1: "store_ok s1" and tm1: "tm < next_ref s1"
    using ok tm alias_extends(1) [of s tm k] by (auto simp: s1_def)
  have ok2: "store_ok s2" and ext2: "store_extends s1 s2"
    using addTokenLogoImageSources_extends [OF ok1] by (simp_all add: s2_def)
  from ext2 k1 have k2: "p_tokensByAddress s2 k = Some r"
    by (simp add: store_extends_def)
  have "p_tokensByAddress s2 k = Some (fst (addTokenLogoImageSources bridged [uri] s1))"
    using addTokenLogoImageSources_key [of bridged "[uri]" s1]
    by (simp add: s2_def k_def bridged_def)
  with k2 have fst_r: "fst (addTokenLogoImageSources bridged [uri] s1) = r" by simp
  have "uri \<in> src ` set (logoImages (heap s2 r))"
    using addTokenLogoImageSources_covers [of "[uri]" bridged s1]
    by (simp add: s2_def fst_r)
  then have img2: "\<lparr>src = uri\<rparr> \<in> set (logoImages (heap s2 r))"
    by (rule LogoImage_src_mem)
  from ok2 k2 have r2: "r < next_ref s2" by (simp add: store_ok_def)
  from ext2 tm1 have tm2: "tm < next_ref s2" by (simp add: store_extends_def)
  from bridge_entries_extends [OF ok2 tm2, of rest uri]
  have "store_extends s2 s'" by (simp add: step)
  with k2 img2 r2 show ?thesis
    by (auto simp: store_extends_def)
qed

lemma bridge_entries_present:
  assumes ok: "store_ok s" and tm: "tm < next_ref s"
    and mem: "(cs, info) \<in> set bs"
    and k: "p_tokensByAddress s
        (getChainAddressKey \<lparr>chainId = Number_of_string cs, address = tokenAddress info\<rparr>) = Some r"
  shows "p_tokensByAddress (bridge_entries bs tm uri s)
        (getChainAddressKey \<lparr>chainId = Number_of_string cs, address = tokenAddress info\<rparr>) = Some r
     \<and> \<lparr>src = uri\<rparr> \<in> set (logoImages (heap (bridge_entries bs tm uri s) r))"
proof -
  from mem obtain xs ys where bs: "bs = xs @ (cs, info) # ys"
    by (auto dest: split_list)
  define sa where "sa = bridge_entries xs tm uri s"
  from bridge_entries_extends [OF ok tm, of xs uri]
  have oka: "store_ok sa" and exta: "store_extends s sa" by (simp_all add: sa_def)
  from exta tm have tma: "tm < next_ref sa" by (simp add: store_extends_def)
  from exta k have ka: "p_tokensByAddress sa
      (getChainAddressKey \<lparr>chainId = Number_of_string cs, address = tokenAddress info\<rparr>) = Some r"
    by (simp add: store_extends_def)
  from bridge_entries_head [OF oka tma, of cs info ys uri] ka
  show ?thesis by (simp add: bs bridge_entries_append sa_def)
qed

lemma process_token_present:
  assumes ok: "store_ok s"
    and uri: "logoURI token = Some uri" "isHttpsUrl uri"
    and ext: "extensions token = Some ext" "bridgeInfo ext = Some bridges"
    and mem: "(cs, info) \<in> set bridges"
    and k: "p_tokensByAddress s
        (getChainAddressKey \<lparr>chainId = Number_of_string cs, address = tokenAddress info\<rparr>) = Some r"
  shows "p_tokensByAddress (process_token token s)
        (getChainAddressKey \<lparr>chainId = Number_of_string cs, address = tokenAddress info\<rparr>) = Some r
     \<and> \<lparr>src = uri\<rparr> \<in> set (logoImages (heap (process_token token s) r))"
proof -
  define tm where "tm = fst (addTokenLogoImageSources token [uri] s)"
  define s1 where "s1 = snd (addTokenLogoImageSources token [uri] s)"
  have ok1: "store_ok s1" and ext1: "store_extends s s1" and tm: "tm < next_ref s1"
    using addTokenLogoImageSources_extends [OF ok, of token "[uri]"]
    by (simp_all add: s1_def tm_def)
  from uri(2) have "uri \<noteq> []" by (auto simp: isHttpsUrl_def)
  with uri ext have pt: "process_token token s = bridge_entries bridges tm uri s1"
    by (simp add: process_token_def s1_def tm_def split_beta)
  from ext1 k have k1: "p_tokensByAddress s1
      (getChainAddressKey \<lparr>chainId = Number_of_string cs, address = tokenAddress info\<rparr>) = Some r"
    by (simp add: store_extends_def)
  from bridge_entries_present [OF ok1 tm mem k1, of uri] pt show ?thesis by simp
qed

subsection \<open>Fetching a token list\<close>

lemma map_of_Map_set: "map_of (Map_set k v es) = (map_of es)(k \<mapsto> v)"
  by (induction es) (auto simp: fun_eq_iff)

lemma addTokenLogoImageSources_tokenLists:
  "p_tokenLists (snd (addTokenLogoImageSources ca new s)) = p_tokenLists s"
  by (simp add: addTokenLogoImageSources_def Let_def split: option.splits)

lemma bridge_entries_tokenLists:
  "p_tokenLists (bridge_entries bs tm uri s) = p_tokenLists s"
  by (induction bs arbitrary: s) (auto simp: Let_def addTokenLogoImageSources_tokenLists)

lemma process_token_tokenLists: "p_tokenLists (process_token t s) = p_tokenLists s"
  by (auto simp: process_token_def split_beta addTokenLogoImageSources_tokenLists
      bridge_entries_tokenLists split: option.splits)

lemma process_tokens_tokenLists: "p_tokenLists (process_tokens ts s) = p_tokenLists s"
  by (induction ts arbitrary: s) (simp_all add: process_tokens_def process_token_tokenLists)

lemma fetchTokensFromList_success:
  assumes "fetch url = Inr response" "ok response" "json response = Inr raw"
    and "safeParse raw = Inr doc"
  shows "fetchTokensFromList fetch safeParse url s =
     (Inr (),
      (process_tokens (tokens doc) s)\<lparr>p_tokenLists :=
         Map_set (URL_href url)
           \<lparr>name = l_name doc, timestamp = l_timestamp doc, href = URL_href url,
            version = l_version doc\<rparr>
           (p_tokenLists s)\<rparr>)"
  using assms by (simp add: fetchTokensFromList_def Let_def process_tokens_tokenLists)

lemma fetchTokensFromList_failure_keeps_store:
  "fst (fetchTokensFromList fetch safeParse url s) \<noteq> Inr () \<Longrightarrow>
   snd (fetchTokensFromList fetch safeParse url s) = s"
  by (auto simp: fetchTokensFromList_def Let_def split: sum.splits if_splits)

text \<open>
  C5. When the fetched document fails validation, \<open>fetchTokensFromList\<close> throws
  \<open>Error("Unable to parse token list.")\<close> and leaves the store as it was, so
  \<open>getTokenListMetadata\<close> for the URL answers what it answered before (absent, if the
  href was unset). When validation succeeds, the call succeeds, and the list's metadata
  is written under the URL's href onto the store that processing all tokens produced.
  Every failing call leaves the store untouched: all failures come before the first
  token is processed, so there is nothing to roll back.
\<close>

theorem fetchTokensFromList_validation:
  "fetch url = Inr response \<Longrightarrow> ok response \<Longrightarrow> json response = Inr raw \<Longrightarrow>
   (safeParse raw = Inl issues \<longrightarrow>
      fetchTokensFromList fetch safeParse url s = (Inl (Error ''Unable to parse token list.''), s)
      \<and> getTokenListMetadata (Inl url) (snd (fetchTokensFromList fetch safeParse url s))
          = getTokenListMetadata (Inl url) s)
   \<and> (safeParse raw = Inr doc \<longrightarrow>
      fetchTokensFromList fetch safeParse url s =
        (Inr (),
         (process_tokens (tokens doc) s)\<lparr>p_tokenLists :=
            Map_set (URL_href url)
              \<lparr>name = l_name doc, timestamp = l_timestamp doc, href = URL_href url,
               version = l_version doc\<rparr>
              (p_tokenLists s)\<rparr>)
      \<and> getTokenListMetadata (Inl url) (snd (fetchTokensFromList fetch safeParse url s))
          = Inr (Some \<lparr>name = l_name doc, timestamp = l_timestamp doc, href = URL_href url,
                       version = l_version doc\<rparr>))
   \<and> (fst (fetchTokensFromList fetch safeParse url s) \<noteq> Inr () \<longrightarrow>
        snd (fetchTokensFromList fetch safeParse url s) = s)"
proof (intro conjI impI)
  assume a: "fetch url = Inr response" "ok response" "json response = Inr raw"
  { assume "safeParse raw = Inl issues"
    with a show "fetchTokensFromList fetch safeParse url s
        = (Inl (Error ''Unable to parse token list.''), s)"
      by (simp add: fetchTokensFromList_def)
    then show "getTokenListMetadata (Inl url) (snd (fetchTokensFromList fetch safeParse url s))
          = getTokenListMetadata (Inl url) s"
      by simp }
  { assume p: "safeParse raw = Inr doc"
    show f: "fetchTokensFromList fetch safeParse url s =
        (Inr (),
         (process_tokens (tokens doc) s)\<lparr>p_tokenLists :=
            Map_set (URL_href url)
              \<lparr>name = l_name doc, timestamp = l_timestamp doc, href = URL_href url,
               version = l_version doc\<rparr>
              (p_tokenLists s)\<rparr>)"
      by (rule fetchTokensFromList_success
            [where fetch = fetch and url = url and safeParse = safeParse, OF a p])
    show "getTokenListMetadata (Inl url) (snd (fetchTokensFromList fetch safeParse url s))
          = Inr (Some \<lparr>name = l_name doc, timestamp = l_timestamp doc, href = URL_href url,
                       version = l_version doc\<rparr>)"
      by (simp add: f getTokenListMetadata_def map_of_Map_set) }
  { assume "fst (fetchTokensFromList fetch safeParse url s) \<noteq> Inr ()"
    then show "snd (fetchTokensFromList fetch safeParse url s) = s"
      by (rule fetchTokensFromList_failure_keeps_store) }
qed

theorem fetchTokensFromList_validation_witness:
  "fetchTokensFromList
       (\<lambda>u. Inr \<lparr>ok = True, statusText = ''OK'', json = Inr (0 :: nat)\<rparr>)
       (\<lambda>raw. (Inl [''tokens: invalid length''] :: string list + TokenList))
       \<lparr>url_scheme = ''https'', url_host = ''example.com'', url_path = ''/list.json'',
        url_query = None, url_fragment = None\<rparr>
       new_TokenMetadataStore
     = (Inl (Error ''Unable to parse token list.''), new_TokenMetadataStore)
   \<and> getTokenListMetadata
       (Inl \<lparr>url_scheme = ''https'', url_host = ''example.com'', url_path = ''/list.json'',
             url_query = None, url_fragment = None\<rparr>)
       (snd (fetchTokensFromList
         (\<lambda>u. Inr \<lparr>ok = True, statusText = ''OK'', json = Inr (0 :: nat)\<rparr>)
         (\<lambda>raw. (Inr \<lparr>l_name = ''Example'', l_timestamp = ''2024-12-12T18:01:30.180Z'',
              l_version = \<lparr>major = 1, minor = 0, patch = 0\<rparr>, tokens = [\<lparr>chainId = 1, address = ''0x6B175474E89094C44Da98b954EedeAC495271d0F'',
                t_name = ''Dai Stablecoin'', symbol = ''DAI'', decimals = 18,
                logoURI = None, extensions = None\<rparr>]\<rparr>
            :: string list + TokenList))
         \<lparr>url_scheme = ''https'', url_host = ''example.com'', url_path = ''/list.json'',
          url_query = None, url_fragment = None\<rparr>
         new_TokenMetadataStore))
     = Inr (Some \<lparr>name = ''Example'', timestamp = ''2024-12-12T18:01:30.180Z'',
                  href = ''https://example.com/list.json'',
                  version = \<lparr>major = 1, minor = 0, patch = 0\<rparr>\<rparr>)"
proof -
  let ?fetch = "\<lambda>u :: URL. (Inr \<lparr>ok = True, statusText = ''OK'', json = Inr (0 :: nat)\<rparr>
      :: error + nat Response)"
  let ?resp = "\<lparr>ok = True, statusText = ''OK'', json = (Inr (0 :: nat) :: error + nat)\<rparr>"
  let ?url = "\<lparr>url_scheme = ''https'', url_host = ''example.com'', url_path = ''/list.json'',
        url_query = None, url_fragment = None\<rparr>"
  let ?bad = "\<lambda>raw :: nat. (Inl [''tokens: invalid length''] :: string list + TokenList)"
  let ?doc = "\<lparr>l_name = ''Example'', l_timestamp = ''2024-12-12T18:01:30.180Z'',
              l_version = \<lparr>major = 1, minor = 0, patch = 0\<rparr>, tokens = [\<lparr>chainId = 1, address = ''0x6B175474E89094C44Da98b954EedeAC495271d0F'',
                t_name = ''Dai Stablecoin'', symbol = ''DAI'', decimals = 18,
                logoURI = None, extensions = None\<rparr>]\<rparr>"
  let ?good = "\<lambda>raw :: nat. (Inr ?doc :: string list + TokenList)"
  have f: "?fetch ?url = Inr ?resp" by simp
  have o: "ok ?resp" by simp
  have j: "json ?resp = Inr 0" by simp
  have b: "?bad 0 = Inl [''tokens: invalid length'']" by simp
  have g: "?good 0 = Inr ?doc" by simp
  note bad = fetchTokensFromList_validation
    [where fetch = ?fetch and url = ?url and safeParse = ?bad and s = new_TokenMetadataStore
       and issues = "[''tokens: invalid length'']", OF f o j]
  note good = fetchTokensFromList_validation
    [where fetch = ?fetch and url = ?url and safeParse = ?good and s = new_TokenMetadataStore
       and doc = ?doc, OF f o j]
  from bad b have 1: "fetchTokensFromList ?fetch ?bad ?url new_TokenMetadataStore
     = (Inl (Error ''Unable to parse token list.''), new_TokenMetadataStore)"
    by blast
  from good g have 2: "getTokenListMetadata (Inl ?url)
       (snd (fetchTokensFromList ?fetch ?good ?url new_TokenMetadataStore))
     = Inr (Some \<lparr>name = l_name ?doc, timestamp = l_timestamp ?doc,
                  href = URL_href ?url, version = l_version ?doc\<rparr>)"
    by blast
  have 3: "URL_href ?url = ''https://example.com/list.json''"
    by (simp add: URL_href_def)
  from 1 2 3 show ?thesis by simp
qed

lemma store_ok_new: "store_ok new_TokenMetadataStore"
  by (simp add: store_ok_def new_TokenMetadataStore_def)

text \<open>
  The invariant holds of the new store and of every store the public operations make
  from a store with the invariant.
\<close>

lemma fetchTokensFromList_store_ok:
  "store_ok s \<Longrightarrow> store_ok (snd (fetchTokensFromList fetch safeParse url s))"
proof -
  assume ok: "store_ok s"
  have "store_ok ((process_tokens ts s)\<lparr>p_tokenLists := l\<rparr>)" for ts l
    using process_tokens_extends [OF ok, of ts] by (simp add: store_ok_def)
  with ok show ?thesis
    by (auto simp: fetchTokensFromList_def Let_def split: sum.splits)
qed

lemma process_tokens_present:
  assumes ok: "store_ok s"
    and mem: "token \<in> set ts"
    and uri: "logoURI token = Some uri" "isHttpsUrl uri"
    and ext: "extensions token = Some ext" "bridgeInfo ext = Some bridges"
    and b: "(cs, info) \<in> set bridges"
    and k: "p_tokensByAddress s
        (getChainAddressKey \<lparr>chainId = Number_of_string cs, address = tokenAddress info\<rparr>) = Some r"
  shows "p_tokensByAddress (process_tokens ts s)
        (getChainAddressKey \<lparr>chainId = Number_of_string cs, address = tokenAddress info\<rparr>) = Some r
     \<and> \<lparr>src = uri\<rparr> \<in> set (logoImages (heap (process_tokens ts s) r))"
proof -
  let ?k = "getChainAddressKey \<lparr>chainId = Number_of_string cs, address = tokenAddress info\<rparr>"
  from mem obtain pre post where ts: "ts = pre @ token # post"
    by (auto dest: split_list)
  define sa where "sa = process_tokens pre s"
  define sb where "sb = process_token token sa"
  from process_tokens_extends [OF ok, of pre]
  have oka: "store_ok sa" and exta: "store_extends s sa" by (simp_all add: sa_def)
  from exta k have ka: "p_tokensByAddress sa ?k = Some r" by (simp add: store_extends_def)
  from process_token_present [OF oka uri ext b ka]
  have kb: "p_tokensByAddress sb ?k = Some r"
    and imgb: "\<lparr>src = uri\<rparr> \<in> set (logoImages (heap sb r))"
    by (simp_all add: sb_def)
  from process_token_extends [OF oka, of token] have okb: "store_ok sb" by (simp add: sb_def)
  with kb have rb: "r < next_ref sb" by (simp add: store_ok_def)
  from process_tokens_extends [OF okb, of post]
  have "store_extends sb (process_tokens post sb)" by simp
  with kb imgb rb have "p_tokensByAddress (process_tokens post sb) ?k = Some r
      \<and> \<lparr>src = uri\<rparr> \<in> set (logoImages (heap (process_tokens post sb) r))"
    by (auto simp: store_extends_def)
  then show ?thesis
    by (simp add: ts process_tokens_append process_tokens_Cons sa_def sb_def)
qed

subsection \<open>First sight of a bridge target\<close>

lemma addTokenLogoImageSources_index_present:
  "p_tokensByAddress s (getChainAddressKey ca) = Some r \<Longrightarrow>
   p_tokensByAddress (snd (addTokenLogoImageSources ca new s)) = p_tokensByAddress s"
  by (simp add: addTokenLogoImageSources_def Let_def)

lemma addTokenLogoImageSources_index_absent:
  "p_tokensByAddress s (getChainAddressKey ca) = None \<Longrightarrow>
   p_tokensByAddress (snd (addTokenLogoImageSources ca new s))
     = (p_tokensByAddress s)(getChainAddressKey ca \<mapsto> fst (addTokenLogoImageSources ca new s))"
  by (simp add: addTokenLogoImageSources_def Let_def)

lemma bridge_entries_new_keys:
  "p_tokensByAddress (bridge_entries bs tm uri s) k = Some r \<Longrightarrow>
   p_tokensByAddress s k = Some r \<or> r = tm"
proof (induction bs arbitrary: s)
  case Nil
  then show ?case by simp
next
  case (Cons b bs)
  obtain cs info where b: "b = (cs, info)" by (cases b)
  define bridged where "bridged = \<lparr>chainId = Number_of_string cs, address = tokenAddress info\<rparr>"
  define s1 where "s1 = (if p_tokensByAddress s (getChainAddressKey bridged) = None
      then s\<lparr>p_tokensByAddress := (p_tokensByAddress s)(getChainAddressKey bridged \<mapsto> tm)\<rparr>
      else s)"
  define s2 where "s2 = snd (addTokenLogoImageSources bridged [uri] s1)"
  have step: "bridge_entries (b # bs) tm uri s = bridge_entries bs tm uri s2"
    by (simp add: b bridged_def s1_def s2_def Let_def)
  have "\<exists>r'. p_tokensByAddress s1 (getChainAddressKey bridged) = Some r'"
    by (auto simp: s1_def)
  then have same: "p_tokensByAddress s2 = p_tokensByAddress s1"
    by (auto simp: s2_def addTokenLogoImageSources_index_present)
  from Cons.prems step have "p_tokensByAddress (bridge_entries bs tm uri s2) k = Some r"
    by simp
  from Cons.IH [OF this] have "p_tokensByAddress s1 k = Some r \<or> r = tm"
    by (simp add: same)
  then show ?case
    by (auto simp: s1_def split: if_splits)
qed

lemma bridge_entries_first_sight:
  assumes ok: "store_ok s" and tm: "tm < next_ref s"
    and mem: "(cs, info) \<in> set bs"
    and k: "p_tokensByAddress s
        (getChainAddressKey \<lparr>chainId = Number_of_string cs, address = tokenAddress info\<rparr>) = None
      \<or> p_tokensByAddress s
        (getChainAddressKey \<lparr>chainId = Number_of_string cs, address = tokenAddress info\<rparr>) = Some tm"
  shows "p_tokensByAddress (bridge_entries bs tm uri s)
        (getChainAddressKey \<lparr>chainId = Number_of_string cs, address = tokenAddress info\<rparr>) = Some tm
     \<and> \<lparr>src = uri\<rparr> \<in> set (logoImages (heap (bridge_entries bs tm uri s) tm))"
proof -
  let ?k = "getChainAddressKey \<lparr>chainId = Number_of_string cs, address = tokenAddress info\<rparr>"
  from mem obtain xs ys where bs: "bs = xs @ (cs, info) # ys"
    by (auto dest: split_list)
  define sa where "sa = bridge_entries xs tm uri s"
  from bridge_entries_extends [OF ok tm, of xs uri]
  have oka: "store_ok sa" and exta: "store_extends s sa" by (simp_all add: sa_def)
  from exta tm have tma: "tm < next_ref sa" by (simp add: store_extends_def)
  have ka: "p_tokensByAddress sa ?k = None \<or> p_tokensByAddress sa ?k = Some tm"
  proof (cases "p_tokensByAddress sa ?k")
    case None
    then show ?thesis by simp
  next
    case (Some r)
    from bridge_entries_new_keys [of xs tm uri s ?k r] Some k
    show ?thesis by (auto simp: sa_def)
  qed
  then have "(case p_tokensByAddress sa ?k of None \<Rightarrow> tm | Some r' \<Rightarrow> r') = tm"
    by auto
  with bridge_entries_head [OF oka tma, of cs info ys uri]
  show ?thesis by (simp add: bs bridge_entries_append sa_def)
qed

lemma process_token_first_sight:
  assumes ok: "store_ok s"
    and uri: "logoURI token = Some uri" "isHttpsUrl uri"
    and ext: "extensions token = Some ext" "bridgeInfo ext = Some bridges"
    and mem: "(cs, info) \<in> set bridges"
    and k: "p_tokensByAddress s
        (getChainAddressKey \<lparr>chainId = Number_of_string cs, address = tokenAddress info\<rparr>) = None"
  shows "p_tokensByAddress (process_token token s)
        (getChainAddressKey \<lparr>chainId = Number_of_string cs, address = tokenAddress info\<rparr>)
       = Some (fst (addTokenLogoImageSources token [uri] s))
     \<and> getTokenFromAddress token (process_token token s)
       = Some (fst (addTokenLogoImageSources token [uri] s))
     \<and> \<lparr>src = uri\<rparr> \<in> set (logoImages (heap (process_token token s)
           (fst (addTokenLogoImageSources token [uri] s))))"
proof -
  let ?k = "getChainAddressKey \<lparr>chainId = Number_of_string cs, address = tokenAddress info\<rparr>"
  define tm where "tm = fst (addTokenLogoImageSources token [uri] s)"
  define s1 where "s1 = snd (addTokenLogoImageSources token [uri] s)"
  have ok1: "store_ok s1" and ext1: "store_extends s s1" and tm: "tm < next_ref s1"
    using addTokenLogoImageSources_extends [OF ok, of token "[uri]"]
    by (simp_all add: s1_def tm_def)
  from uri(2) have "uri \<noteq> []" by (auto simp: isHttpsUrl_def)
  with uri ext have pt: "process_token token s = bridge_entries bridges tm uri s1"
    by (simp add: process_token_def s1_def tm_def split_beta)
  have own1: "p_tokensByAddress s1 (getChainAddressKey token) = Some tm"
    using addTokenLogoImageSources_key [of token "[uri]" s] by (simp add: s1_def tm_def)
  have k1: "p_tokensByAddress s1 ?k = None \<or> p_tokensByAddress s1 ?k = Some tm"
  proof (cases "?k = getChainAddressKey token")
    case True
    with own1 show ?thesis by simp
  next
    case False
    have "p_tokensByAddress s1 ?k = p_tokensByAddress s ?k"
      using False
      by (cases "p_tokensByAddress s (getChainAddressKey token)")
         (simp_all add: s1_def addTokenLogoImageSources_index_absent
            addTokenLogoImageSources_index_present)
    with k show ?thesis by simp
  qed
  from bridge_entries_first_sight [OF ok1 tm mem k1, of uri]
  have a: "p_tokensByAddress (process_token token s) ?k = Some tm"
    and b: "\<lparr>src = uri\<rparr> \<in> set (logoImages (heap (process_token token s) tm))"
    by (simp_all add: pt)
  from bridge_entries_extends [OF ok1 tm, of bridges uri] own1
  have c: "p_tokensByAddress (process_token token s) (getChainAddressKey token) = Some tm"
    by (simp add: pt store_extends_def)
  from a b c show ?thesis
    by (simp add: tm_def getTokenFromAddress_def)
qed

text \<open>
  C3. Let a token with an https logo name a bridge target, and let \<open>canonical\<close> be the
  object \<open>addTokenLogoImageSources\<close> returns for the token's own chain address. When the
  target's key holds nothing as the token is processed, the key afterwards holds
  \<open>canonical\<close>, the very object the token's own key holds; when the key already holds
  an object, it keeps that object. Either way the object the key holds has the logo
  among its images. The same holds of \<open>fetchTokensFromList\<close> on a store whose invariant
  holds: a target's key that an earlier ingestion had populated still holds the object it
  held before, now with the logo, and a key unseen before the first token of the list is
  processed holds that token's canonical object.
\<close>

theorem bridge_target_alias_on_first_sight:
  fixes chainIdString :: string and info :: BridgeInfo and s :: TokenMetadataStore
    and token :: TokenInfo and uri :: string
    and fetch :: "URL \<Rightarrow> error + 'raw Response" and safeParse :: "'raw \<Rightarrow> 'issues + TokenList"
  defines "k \<equiv> getChainAddressKey
      \<lparr>chainId = Number_of_string chainIdString, address = tokenAddress info\<rparr>"
  defines "canonical \<equiv> fst (addTokenLogoImageSources token [uri] s)"
  assumes ok: "store_ok s"
  shows
    "(logoURI token = Some uri \<and> isHttpsUrl uri
        \<and> extensions token = Some ext \<and> bridgeInfo ext = Some bridges
        \<and> (chainIdString, info) \<in> set bridges \<longrightarrow>
        (p_tokensByAddress s k = None \<longrightarrow>
           p_tokensByAddress (process_token token s) k = Some canonical
           \<and> getTokenFromAddress token (process_token token s) = Some canonical
           \<and> \<lparr>src = uri\<rparr> \<in> set (logoImages (heap (process_token token s) canonical)))
        \<and> (p_tokensByAddress s k = Some r \<longrightarrow>
           p_tokensByAddress (process_token token s) k = Some r
           \<and> \<lparr>src = uri\<rparr> \<in> set (logoImages (heap (process_token token s) r))))
     \<and> (fetch url = Inr response \<and> ok response \<and> json response = Inr raw
          \<and> safeParse raw = Inr doc \<and> token \<in> set (tokens doc)
          \<and> logoURI token = Some uri \<and> isHttpsUrl uri
          \<and> extensions token = Some ext \<and> bridgeInfo ext = Some bridges
          \<and> (chainIdString, info) \<in> set bridges
          \<and> p_tokensByAddress s k = Some r \<longrightarrow>
        fst (fetchTokensFromList fetch safeParse url s) = Inr ()
        \<and> p_tokensByAddress (snd (fetchTokensFromList fetch safeParse url s)) k = Some r
        \<and> \<lparr>src = uri\<rparr>
             \<in> set (logoImages (heap (snd (fetchTokensFromList fetch safeParse url s)) r)))
     \<and> (fetch url = Inr response \<and> ok response \<and> json response = Inr raw
          \<and> safeParse raw = Inr doc \<and> tokens doc = token # later
          \<and> logoURI token = Some uri \<and> isHttpsUrl uri
          \<and> extensions token = Some ext \<and> bridgeInfo ext = Some bridges
          \<and> (chainIdString, info) \<in> set bridges
          \<and> p_tokensByAddress s k = None \<longrightarrow>
        fst (fetchTokensFromList fetch safeParse url s) = Inr ()
        \<and> p_tokensByAddress (snd (fetchTokensFromList fetch safeParse url s)) k = Some canonical
        \<and> getTokenFromAddress token (snd (fetchTokensFromList fetch safeParse url s))
            = Some canonical
        \<and> \<lparr>src = uri\<rparr>
             \<in> set (logoImages (heap (snd (fetchTokensFromList fetch safeParse url s)) canonical)))"
proof (intro conjI impI)
  assume a: "logoURI token = Some uri \<and> isHttpsUrl uri
        \<and> extensions token = Some ext \<and> bridgeInfo ext = Some bridges
        \<and> (chainIdString, info) \<in> set bridges"
  { assume n: "p_tokensByAddress s k = None"
    from a n have "p_tokensByAddress (process_token token s) k = Some canonical
       \<and> getTokenFromAddress token (process_token token s) = Some canonical
       \<and> \<lparr>src = uri\<rparr> \<in> set (logoImages (heap (process_token token s) canonical))"
      unfolding k_def canonical_def
      by (intro process_token_first_sight [OF ok, of token uri ext bridges]) simp_all
    then show "p_tokensByAddress (process_token token s) k = Some canonical"
      and "getTokenFromAddress token (process_token token s) = Some canonical"
      and "\<lparr>src = uri\<rparr> \<in> set (logoImages (heap (process_token token s) canonical))"
      by simp_all }
  { assume p: "p_tokensByAddress s k = Some r"
    from a p have "p_tokensByAddress (process_token token s) k = Some r
       \<and> \<lparr>src = uri\<rparr> \<in> set (logoImages (heap (process_token token s) r))"
      unfolding k_def
      by (intro process_token_present [OF ok, of token uri ext bridges]) simp_all
    then show "p_tokensByAddress (process_token token s) k = Some r"
      and "\<lparr>src = uri\<rparr> \<in> set (logoImages (heap (process_token token s) r))"
      by simp_all }
next
  assume a: "fetch url = Inr response \<and> ok response \<and> json response = Inr raw
          \<and> safeParse raw = Inr doc \<and> token \<in> set (tokens doc)
          \<and> logoURI token = Some uri \<and> isHttpsUrl uri
          \<and> extensions token = Some ext \<and> bridgeInfo ext = Some bridges
          \<and> (chainIdString, info) \<in> set bridges
          \<and> p_tokensByAddress s k = Some r"
  then have f: "fetch url = Inr response" "ok response" "json response = Inr raw"
    and p: "safeParse raw = Inr doc" by simp_all
  have eq: "fetchTokensFromList fetch safeParse url s =
     (Inr (),
      (process_tokens (tokens doc) s)\<lparr>p_tokenLists :=
         Map_set (URL_href url)
           \<lparr>name = l_name doc, timestamp = l_timestamp doc, href = URL_href url,
            version = l_version doc\<rparr>
           (p_tokenLists s)\<rparr>)"
    by (rule fetchTokensFromList_success
          [where fetch = fetch and url = url and safeParse = safeParse, OF f p])
  from a have "p_tokensByAddress (process_tokens (tokens doc) s) k = Some r
     \<and> \<lparr>src = uri\<rparr> \<in> set (logoImages (heap (process_tokens (tokens doc) s) r))"
    unfolding k_def
    by (intro process_tokens_present [OF ok, of token _ uri ext bridges]) simp_all
  then show "fst (fetchTokensFromList fetch safeParse url s) = Inr ()"
    and "p_tokensByAddress (snd (fetchTokensFromList fetch safeParse url s)) k = Some r"
    and "\<lparr>src = uri\<rparr>
             \<in> set (logoImages (heap (snd (fetchTokensFromList fetch safeParse url s)) r))"
    by (simp_all add: eq)
next
  assume a: "fetch url = Inr response \<and> ok response \<and> json response = Inr raw
          \<and> safeParse raw = Inr doc \<and> tokens doc = token # later
          \<and> logoURI token = Some uri \<and> isHttpsUrl uri
          \<and> extensions token = Some ext \<and> bridgeInfo ext = Some bridges
          \<and> (chainIdString, info) \<in> set bridges
          \<and> p_tokensByAddress s k = None"
  then have f: "fetch url = Inr response" "ok response" "json response = Inr raw"
    and p: "safeParse raw = Inr doc" and d: "tokens doc = token # later" by simp_all
  have eq: "fetchTokensFromList fetch safeParse url s =
     (Inr (),
      (process_tokens (tokens doc) s)\<lparr>p_tokenLists :=
         Map_set (URL_href url)
           \<lparr>name = l_name doc, timestamp = l_timestamp doc, href = URL_href url,
            version = l_version doc\<rparr>
           (p_tokenLists s)\<rparr>)"
    by (rule fetchTokensFromList_success
          [where fetch = fetch and url = url and safeParse = safeParse, OF f p])
  define st where "st = process_token token s"
  from a have first: "p_tokensByAddress st k = Some canonical
       \<and> getTokenFromAddress token st = Some canonical
       \<and> \<lparr>src = uri\<rparr> \<in> set (logoImages (heap st canonical))"
    unfolding k_def canonical_def st_def
    by (intro process_token_first_sight [OF ok, of token uri ext bridges]) simp_all
  from process_token_extends [OF ok, of token] have okt: "store_ok st"
    by (simp add: st_def)
  with first have c: "canonical < next_ref st" by (auto simp: store_ok_def)
  from process_tokens_extends [OF okt, of later]
  have "store_extends st (process_tokens later st)" by simp
  with first c have "p_tokensByAddress (process_tokens later st) k = Some canonical
       \<and> getTokenFromAddress token (process_tokens later st) = Some canonical
       \<and> \<lparr>src = uri\<rparr> \<in> set (logoImages (heap (process_tokens later st) canonical))"
    by (auto simp: store_extends_def getTokenFromAddress_def)
  then show "fst (fetchTokensFromList fetch safeParse url s) = Inr ()"
    and "p_tokensByAddress (snd (fetchTokensFromList fetch safeParse url s)) k = Some canonical"
    and "getTokenFromAddress token (snd (fetchTokensFromList fetch safeParse url s))
            = Some canonical"
    and "\<lparr>src = uri\<rparr>
             \<in> set (logoImages (heap (snd (fetchTokensFromList fetch safeParse url s)) canonical))"
    by (simp_all add: eq d process_tokens_Cons st_def getTokenFromAddress_def)
qed

lemma digit_char_values:
  "digit_char 0 = CHR ''0''" "digit_char 1 = CHR ''1''" "digit_char 2 = CHR ''2''"
  "digit_char 3 = CHR ''3''" "digit_char 4 = CHR ''4''" "digit_char 5 = CHR ''5''"
  "digit_char 6 = CHR ''6''" "digit_char 7 = CHR ''7''" "digit_char 8 = CHR ''8''"
  "digit_char 9 = CHR ''9''"
  by (simp_all add: digit_char_def char_eq_code [of "char_of _"])

lemma String_of_number_1: "String_of_number 1 = ''1''"
  by (subst String_of_number.simps) (simp add: digit_char_def char_eq_code [of "char_of _"])

lemma String_of_number_8453: "String_of_number 8453 = ''8453''"
  by (simp add: String_of_number.simps [of 8453] String_of_number.simps [of 845]
      String_of_number.simps [of 84] String_of_number.simps [of 8] digit_char_values)


lemmas store_eval = fetchTokensFromList_def process_tokens_def process_token_def
  addTokenLogoImageSources_def getTokenFromAddress_def getChainAddressKey_def slice2_def
  new_TokenMetadataStore_def Let_def isHttpsUrl_def Number_of_string_def digit_val_def
  String_of_number_1 String_of_number_8453

theorem bridge_target_alias_on_first_sight_witness:
  "(let url = \<lparr>url_scheme = ''https'', url_host = ''example.com'', url_path = ''/list.json'',
               url_query = None, url_fragment = None\<rparr>;
        bridged = \<lparr>chainId = 8453, address = ''0x50c5725949A6F0c72E6C4a641F24049A917DB0Cb''\<rparr>;
        dai = \<lparr>chainId = 1, address = ''0x6B175474E89094C44Da98b954EedeAC495271d0F'',
               t_name = ''Dai Stablecoin'', symbol = ''DAI'', decimals = 18,
               logoURI = Some ''https://example/dai.png'',
               extensions = Some \<lparr>bridgeInfo = Some [(''8453'',
                 \<lparr>tokenAddress = ''0x50c5725949A6F0c72E6C4a641F24049A917DB0Cb''\<rparr>)]\<rparr>\<rparr>;
        doc = \<lparr>l_name = ''Example'', l_timestamp = ''2024-12-12T18:01:30.180Z'',
               l_version = \<lparr>major = 1, minor = 0, patch = 0\<rparr>, tokens = [dai]\<rparr>;
        fetch = (\<lambda>u. Inr \<lparr>ok = True, statusText = ''OK'', json = Inr (0 :: nat)\<rparr>);
        parse = (\<lambda>raw. (Inr doc :: string list + TokenList));
        other = snd (addTokenLogoImageSources
               \<lparr>chainId = 1, address = ''0xA0b86991c6218b36c1d19D4a2e9Eb0cE3606eB48''\<rparr>
               [''/static/images/usdc.png''] new_TokenMetadataStore);
        earlier = snd (addTokenLogoImageSources bridged
               [''/static/images/dai.png''] new_TokenMetadataStore)
    in getTokenFromAddress bridged other = None
       \<and> getTokenFromAddress bridged (process_token dai other) = Some 1
       \<and> getTokenFromAddress dai (process_token dai other) = Some 1
       \<and> getTokenFromAddress bridged (snd (fetchTokensFromList fetch parse url other)) = Some 1
       \<and> getTokenFromAddress dai (snd (fetchTokensFromList fetch parse url other)) = Some 1
       \<and> getTokenFromAddress bridged earlier = Some 0
       \<and> getTokenFromAddress bridged (process_token dai earlier) = Some 0
       \<and> getTokenFromAddress dai (process_token dai earlier) = Some 1
       \<and> \<lparr>src = ''https://example/dai.png''\<rparr>
            \<in> set (logoImages (heap (process_token dai earlier) 0))
       \<and> getTokenFromAddress bridged (snd (fetchTokensFromList fetch parse url earlier)) = Some 0
       \<and> \<lparr>src = ''https://example/dai.png''\<rparr>
            \<in> set (logoImages (heap (snd (fetchTokensFromList fetch parse url earlier)) 0)))"
proof -
  let ?url = "\<lparr>url_scheme = ''https'', url_host = ''example.com'', url_path = ''/list.json'',
               url_query = None, url_fragment = None\<rparr>"
  let ?info = "\<lparr>tokenAddress = ''0x50c5725949A6F0c72E6C4a641F24049A917DB0Cb''\<rparr>"
  let ?bridged = "\<lparr>chainId = 8453, address = ''0x50c5725949A6F0c72E6C4a641F24049A917DB0Cb''\<rparr>"
  let ?ext = "\<lparr>bridgeInfo = Some [(''8453'', ?info)]\<rparr>"
  let ?uri = "''https://example/dai.png''"
  let ?dai = "\<lparr>chainId = 1, address = ''0x6B175474E89094C44Da98b954EedeAC495271d0F'',
               t_name = ''Dai Stablecoin'', symbol = ''DAI'', decimals = 18,
               logoURI = Some ?uri, extensions = Some ?ext\<rparr>"
  let ?doc = "\<lparr>l_name = ''Example'', l_timestamp = ''2024-12-12T18:01:30.180Z'',
               l_version = \<lparr>major = 1, minor = 0, patch = 0\<rparr>, tokens = [?dai]\<rparr>"
  let ?resp = "\<lparr>ok = True, statusText = ''OK'', json = (Inr (0 :: nat) :: error + nat)\<rparr>"
  let ?fetch = "\<lambda>u :: URL. (Inr ?resp :: error + nat Response)"
  let ?parse = "\<lambda>raw :: nat. (Inr ?doc :: string list + TokenList)"
  let ?other = "snd (addTokenLogoImageSources
               \<lparr>chainId = 1, address = ''0xA0b86991c6218b36c1d19D4a2e9Eb0cE3606eB48''\<rparr>
               [''/static/images/usdc.png''] new_TokenMetadataStore)"
  let ?earlier = "snd (addTokenLogoImageSources ?bridged
               [''/static/images/dai.png''] new_TokenMetadataStore)"
  let ?k = "getChainAddressKey
      \<lparr>chainId = Number_of_string ''8453'', address = tokenAddress ?info\<rparr>"
  have n: "Number_of_string ''8453'' = 8453"
    by (simp add: Number_of_string_def digit_val_def)
  have k: "?k = getChainAddressKey ?bridged"
    by (simp add: n)
  have ok_other: "store_ok ?other" and ok_earlier: "store_ok ?earlier"
    by (rule addTokenLogoImageSources_extends(1) [OF store_ok_new])+
  have absent: "p_tokensByAddress ?other ?k = None"
    by (simp add: n addTokenLogoImageSources_def new_TokenMetadataStore_def Let_def
        getChainAddressKey_eq_iff)
  have present: "p_tokensByAddress ?earlier ?k = Some 0"
    using addTokenLogoImageSources_key [of ?bridged "[''/static/images/dai.png'']"
        new_TokenMetadataStore]
    by (simp add: n addTokenLogoImageSources_def new_TokenMetadataStore_def Let_def)
  have canon_other: "fst (addTokenLogoImageSources ?dai [?uri] ?other) = 1"
    by (simp add: addTokenLogoImageSources_def new_TokenMetadataStore_def Let_def
        getChainAddressKey_eq_iff)
  have canon_earlier: "getTokenFromAddress ?dai (process_token ?dai ?earlier) = Some 1"
    by (simp add: store_eval)
  have token_hyp: "logoURI ?dai = Some ?uri \<and> isHttpsUrl ?uri
        \<and> extensions ?dai = Some ?ext \<and> bridgeInfo ?ext = Some [(''8453'', ?info)]
        \<and> (''8453'', ?info) \<in> set [(''8453'', ?info)]"
    by (simp add: isHttpsUrl_def)
  have fetch_present: "?fetch ?url = Inr ?resp \<and> ok ?resp \<and> json ?resp = Inr 0
          \<and> ?parse 0 = Inr ?doc \<and> ?dai \<in> set (tokens ?doc)
          \<and> logoURI ?dai = Some ?uri \<and> isHttpsUrl ?uri
          \<and> extensions ?dai = Some ?ext \<and> bridgeInfo ?ext = Some [(''8453'', ?info)]
          \<and> (''8453'', ?info) \<in> set [(''8453'', ?info)]
          \<and> p_tokensByAddress ?earlier ?k = Some 0"
    using present by (simp add: isHttpsUrl_def)
  have fetch_absent: "?fetch ?url = Inr ?resp \<and> ok ?resp \<and> json ?resp = Inr 0
          \<and> ?parse 0 = Inr ?doc \<and> tokens ?doc = ?dai # []
          \<and> logoURI ?dai = Some ?uri \<and> isHttpsUrl ?uri
          \<and> extensions ?dai = Some ?ext \<and> bridgeInfo ?ext = Some [(''8453'', ?info)]
          \<and> (''8453'', ?info) \<in> set [(''8453'', ?info)]
          \<and> p_tokensByAddress ?other ?k = None"
    using absent by (simp add: isHttpsUrl_def)
  note on_other = bridge_target_alias_on_first_sight
    [where s = ?other and chainIdString = "''8453''" and info = ?info
       and fetch = ?fetch and safeParse = ?parse and url = ?url and response = ?resp
       and raw = 0 and doc = ?doc and token = ?dai and uri = ?uri
       and ext = ?ext and bridges = "[(''8453'', ?info)]" and later = "[]", OF ok_other]
  note on_earlier = bridge_target_alias_on_first_sight
    [where s = ?earlier and chainIdString = "''8453''" and info = ?info
       and fetch = ?fetch and safeParse = ?parse and url = ?url and response = ?resp
       and raw = 0 and doc = ?doc and token = ?dai and uri = ?uri
       and ext = ?ext and bridges = "[(''8453'', ?info)]" and r = 0, OF ok_earlier]
  have p1: "p_tokensByAddress (process_token ?dai ?other) ?k = Some 1
      \<and> getTokenFromAddress ?dai (process_token ?dai ?other) = Some 1
      \<and> \<lparr>src = ?uri\<rparr> \<in> set (logoImages (heap (process_token ?dai ?other) 1))"
    using on_other [THEN conjunct1, THEN mp, OF token_hyp, THEN conjunct1, THEN mp, OF absent]
    unfolding canon_other .
  have p2: "p_tokensByAddress (process_token ?dai ?earlier) ?k = Some 0
      \<and> \<lparr>src = ?uri\<rparr> \<in> set (logoImages (heap (process_token ?dai ?earlier) 0))"
    by (rule on_earlier [THEN conjunct1, THEN mp, OF token_hyp, THEN conjunct2, THEN mp,
          OF present])
  have p3: "p_tokensByAddress (snd (fetchTokensFromList ?fetch ?parse ?url ?earlier)) ?k = Some 0
     \<and> \<lparr>src = ?uri\<rparr>
         \<in> set (logoImages (heap (snd (fetchTokensFromList ?fetch ?parse ?url ?earlier)) 0))"
    using on_earlier [THEN conjunct2, THEN conjunct1, THEN mp, OF fetch_present]
    by (rule conjunct2)
  have p4: "p_tokensByAddress (snd (fetchTokensFromList ?fetch ?parse ?url ?other)) ?k = Some 1
     \<and> getTokenFromAddress ?dai (snd (fetchTokensFromList ?fetch ?parse ?url ?other)) = Some 1"
    using on_other [THEN conjunct2, THEN conjunct2, THEN mp, OF fetch_absent]
    unfolding canon_other by simp
  from p1 p2 p3 p4 absent present canon_earlier show ?thesis
    unfolding Let_def getTokenFromAddress_def k by simp
qed

text \<open>
  C4. A new store ingests a list that validates and has one token: chain ID 1, an https
  logo, and \<open>bridgeInfo\<close> with the single key \<open>8453\<close>. The call succeeds;
  \<open>getTokenFromAddress\<close> finds an object for the token's own chain address and for the
  bridged address on chain 8453, each with exactly the logo as its images; and
  \<open>tokenLists\<close> is the one entry with the list's name, timestamp and version and the
  href of the fetched URL.
\<close>

theorem fetchTokensFromList_end_to_end:
  fixes fetch :: "URL \<Rightarrow> error + 'raw Response" and safeParse :: "'raw \<Rightarrow> 'issues + TokenList"
    and url :: URL
  defines "s' \<equiv> snd (fetchTokensFromList fetch safeParse url new_TokenMetadataStore)"
  assumes f: "fetch url = Inr response" "ok response" "json response = Inr raw"
    and p: "safeParse raw = Inr doc"
    and doc: "tokens doc = [token]"
    and tok: "chainId token = 1" "logoURI token = Some uri" "isHttpsUrl uri"
    and ext: "extensions token = Some ext" "bridgeInfo ext = Some [(''8453'', info)]"
  shows "fst (fetchTokensFromList fetch safeParse url new_TokenMetadataStore) = Inr ()
     \<and> (\<exists>r. getTokenFromAddress \<lparr>chainId = 1, address = address token\<rparr> s' = Some r
             \<and> logoImages (heap s' r) = [\<lparr>src = uri\<rparr>])
     \<and> (\<exists>r. getTokenFromAddress \<lparr>chainId = 8453, address = tokenAddress info\<rparr> s' = Some r
             \<and> logoImages (heap s' r) = [\<lparr>src = uri\<rparr>])
     \<and> tokenLists s' = [\<lparr>name = l_name doc, timestamp = l_timestamp doc,
                           href = URL_href url, version = l_version doc\<rparr>]"
proof -
  let ?own = "getChainAddressKey token"
  let ?bridged = "\<lparr>chainId = 8453, address = tokenAddress info\<rparr>"
  have own_key: "getChainAddressKey \<lparr>chainId = 1, address = address token\<rparr> = ?own"
    using tok(1) by (simp add: getChainAddressKey_def)
  have ne: "getChainAddressKey ?bridged \<noteq> ?own"
    using tok(1) by (simp add: getChainAddressKey_eq_iff)
  have n: "Number_of_string ''8453'' = 8453"
    by (simp add: Number_of_string_def digit_val_def)
  from tok(3) have nonempty: "uri \<noteq> []" by (auto simp: isHttpsUrl_def)
  define s1 where "s1 = \<lparr>p_tokenLists = [], p_tokensByAddress = [?own \<mapsto> 0],
      heap = (\<lambda>_. \<lparr>logoImages = []\<rparr>)(0 := \<lparr>logoImages = [\<lparr>src = uri\<rparr>]\<rparr>), next_ref = Suc 0\<rparr>"
  define s2 where "s2 = s1\<lparr>p_tokensByAddress := (p_tokensByAddress s1)(getChainAddressKey ?bridged \<mapsto> 0)\<rparr>"
  have a1: "addTokenLogoImageSources token [uri] new_TokenMetadataStore = (0, s1)"
    by (simp add: addTokenLogoImageSources_def new_TokenMetadataStore_def Let_def s1_def)
  have absent: "p_tokensByAddress s1 (getChainAddressKey ?bridged) = None"
    using ne by (simp add: s1_def)
  have a2: "addTokenLogoImageSources ?bridged [uri] s2 = (0, s2)"
    by (rule addTokenLogoImageSources_known) (simp_all add: s2_def s1_def)
  have pt: "process_token token new_TokenMetadataStore = s2"
    using tok ext nonempty absent a2
    by (simp add: process_token_def a1 n Let_def s2_def)
  have eq: "fetchTokensFromList fetch safeParse url new_TokenMetadataStore =
     (Inr (),
      (process_tokens (tokens doc) new_TokenMetadataStore)\<lparr>p_tokenLists :=
         Map_set (URL_href url)
           \<lparr>name = l_name doc, timestamp = l_timestamp doc, href = URL_href url,
            version = l_version doc\<rparr>
           (p_tokenLists new_TokenMetadataStore)\<rparr>)"
    by (rule fetchTokensFromList_success
          [where fetch = fetch and url = url and safeParse = safeParse, OF f p])
  have ptl: "p_tokenLists new_TokenMetadataStore = []"
    by (simp add: new_TokenMetadataStore_def)
  have s': "s' = s2\<lparr>p_tokenLists := [(URL_href url,
      \<lparr>name = l_name doc, timestamp = l_timestamp doc, href = URL_href url,
       version = l_version doc\<rparr>)]\<rparr>"
    by (simp add: s'_def eq doc process_tokens_def pt ptl)
  have m1: "p_tokensByAddress s' ?own = Some 0"
    using ne by (simp add: s' s2_def s1_def)
  have "getTokenFromAddress \<lparr>chainId = 1, address = address token\<rparr> s' = Some 0"
    unfolding getTokenFromAddress_def own_key by (rule m1)
  moreover have "getTokenFromAddress ?bridged s' = Some 0"
    by (simp add: getTokenFromAddress_def s' s2_def)
  moreover have "logoImages (heap s' 0) = [\<lparr>src = uri\<rparr>]"
    by (simp add: s' s2_def s1_def)
  moreover have "tokenLists s' = [\<lparr>name = l_name doc, timestamp = l_timestamp doc,
                           href = URL_href url, version = l_version doc\<rparr>]"
    by (simp add: tokenLists_def s')
  ultimately show ?thesis by (simp add: eq)
qed

theorem fetchTokensFromList_end_to_end_witness:
  "(let s' = snd (fetchTokensFromList
        (\<lambda>u. Inr \<lparr>ok = True, statusText = ''OK'', json = Inr (0 :: nat)\<rparr>)
        (\<lambda>raw. (Inr \<lparr>l_name = ''Example'', l_timestamp = ''2024-12-12T18:01:30.180Z'',
             l_version = \<lparr>major = 1, minor = 0, patch = 0\<rparr>,
             tokens = [\<lparr>chainId = 1, address = ''0x6B175474E89094C44Da98b954EedeAC495271d0F'',
               t_name = ''Dai Stablecoin'', symbol = ''DAI'', decimals = 18,
               logoURI = Some ''https://example/dai.png'',
               extensions = Some \<lparr>bridgeInfo = Some [(''8453'',
                 \<lparr>tokenAddress = ''0x50c5725949A6F0c72E6C4a641F24049A917DB0Cb''\<rparr>)]\<rparr>\<rparr>]\<rparr>
           :: string list + TokenList))
        \<lparr>url_scheme = ''https'', url_host = ''example.com'', url_path = ''/list.json'',
         url_query = None, url_fragment = None\<rparr>
        new_TokenMetadataStore)
    in (\<exists>r. getTokenFromAddress
             \<lparr>chainId = 1, address = ''0x6B175474E89094C44Da98b954EedeAC495271d0F''\<rparr> s' = Some r
           \<and> logoImages (heap s' r) = [\<lparr>src = ''https://example/dai.png''\<rparr>])
       \<and> (\<exists>r. getTokenFromAddress
             \<lparr>chainId = 8453, address = ''0x50c5725949A6F0c72E6C4a641F24049A917DB0Cb''\<rparr> s' = Some r
           \<and> logoImages (heap s' r) = [\<lparr>src = ''https://example/dai.png''\<rparr>])
       \<and> tokenLists s'
           = [\<lparr>name = ''Example'', timestamp = ''2024-12-12T18:01:30.180Z'',
               href = ''https://example.com/list.json'',
               version = \<lparr>major = 1, minor = 0, patch = 0\<rparr>\<rparr>])"
proof -
  let ?url = "\<lparr>url_scheme = ''https'', url_host = ''example.com'', url_path = ''/list.json'',
               url_query = None, url_fragment = None\<rparr>"
  let ?info = "\<lparr>tokenAddress = ''0x50c5725949A6F0c72E6C4a641F24049A917DB0Cb''\<rparr>"
  let ?ext = "\<lparr>bridgeInfo = Some [(''8453'', ?info)]\<rparr>"
  let ?dai = "\<lparr>chainId = 1, address = ''0x6B175474E89094C44Da98b954EedeAC495271d0F'',
               t_name = ''Dai Stablecoin'', symbol = ''DAI'', decimals = 18,
               logoURI = Some ''https://example/dai.png'', extensions = Some ?ext\<rparr>"
  let ?doc = "\<lparr>l_name = ''Example'', l_timestamp = ''2024-12-12T18:01:30.180Z'',
               l_version = \<lparr>major = 1, minor = 0, patch = 0\<rparr>, tokens = [?dai]\<rparr>"
  let ?resp = "\<lparr>ok = True, statusText = ''OK'', json = (Inr (0 :: nat) :: error + nat)\<rparr>"
  let ?fetch = "\<lambda>u :: URL. (Inr ?resp :: error + nat Response)"
  let ?parse = "\<lambda>raw :: nat. (Inr ?doc :: string list + TokenList)"
  have f: "?fetch ?url = Inr ?resp" by simp
  have o: "ok ?resp" by simp
  have j: "json ?resp = Inr 0" by simp
  have p: "?parse 0 = Inr ?doc" by simp
  have d: "tokens ?doc = [?dai]" by simp
  have c: "chainId ?dai = 1" by simp
  have l: "logoURI ?dai = Some ''https://example/dai.png''" by simp
  have h: "isHttpsUrl ''https://example/dai.png''" by (simp add: isHttpsUrl_def)
  have e: "extensions ?dai = Some ?ext" by simp
  have b: "bridgeInfo ?ext = Some [(''8453'', ?info)]" by simp
  note inst = fetchTokensFromList_end_to_end
    [where fetch = ?fetch and safeParse = ?parse and url = ?url, OF f o j p d c l h e b]
  have u: "URL_href ?url = ''https://example.com/list.json''"
    by (simp add: URL_href_def)
  from inst u show ?thesis
    by (simp add: Let_def)
qed

end
